theory Spec2Isabelle
  imports Main "HOL-Library.Word"
begin

unbundle bit_operations_syntax

section \<open>M68HC05 on-board peripherals (devices/cpu/m6805/m68hc05.cpp)\<close>

text \<open>
  A shallow embedding of the register handlers, the cycle accounting and the interrupt
  entry of \<^verbatim>\<open>m68hc05_device\<close>. Every member function becomes a function from the
  device state to the new device state; a value read is returned beside the state, a
  callback invocation is returned as an event, and \<^verbatim>\<open>throw emu_fatalerror\<close> is
  the left injection of a sum, carrying the state at the point of the throw.
\<close>

subsection \<open>Data\<close>

type_synonym u8 = "8 word"
type_synonym u16 = "16 word"
type_synonym u32 = "32 word"

text \<open>
  The arrays of the device have \<^verbatim>\<open>PORT_COUNT\<close> = 4 entries (the four-element
  initialisers of the constructor, indices 0..3 in \<^verbatim>\<open>set_port_bits\<close>) and are always
  indexed by \<^verbatim>\<open>offset & (PORT_COUNT - 1)\<close>: a port array is a function from two-bit
  indices. The two-entry arrays \<^verbatim>\<open>m_trl_buf\<close> and \<^verbatim>\<open>m_trl_latched\<close> are indexed by
  the one-bit value \<^verbatim>\<open>alt\<close>: functions from \<^typ>\<open>bool\<close>.
\<close>

type_synonym port_index = "2 word"

text \<open>What the device hands to its surroundings, in the order it does so.\<close>

datatype event =
    Port_cb_w port_index u8 u8    \<comment> \<open>\<^verbatim>\<open>m_port_cb_w[offset](space, 0, value, ddr)\<close>\<close>
  | Tcmp_cb bool                  \<comment> \<open>\<^verbatim>\<open>m_tcmp_cb(level)\<close>\<close>
  | Reset_pulse                   \<comment> \<open>\<^verbatim>\<open>set_input_line(INPUT_LINE_RESET, PULSE_LINE)\<close>\<close>
  | Irq_callback                  \<comment> \<open>\<^verbatim>\<open>standard_irq_callback(0)\<close>\<close>

datatype emu_fatalerror = Fatal string

text \<open>
  Modelled from the spec: the stack of the absent base class \<^verbatim>\<open>m6805_base_device\<close>
  (\<^verbatim>\<open>pushbyte\<close>, \<^verbatim>\<open>pushword\<close>). The spec gives the order of the pushes only, so
  the stack is the list of the pushed items, the newest first.
\<close>

datatype stack_item = Byte u8 | Word16 u16

record m6805_base =
  m_pc :: u16
  m_x :: u8
  m_a :: u8
  m_cc :: u8
  stack :: "stack_item list"
  m_pending_interrupts :: u16
  m_irq_state :: "nat \<Rightarrow> int"
  m_icount :: int

text \<open>
  The members of \<^verbatim>\<open>m68hc05_device\<close>, with the widths of the constructor's
  initialisers and of the casts in the handlers; \<open>base\<close> holds the members the class
  inherits from \<^verbatim>\<open>m6805_base_device\<close>, \<open>configured\<close> and \<open>started\<close> are the
  two queries of \<^verbatim>\<open>device_t\<close>.
\<close>

record m68hc05 =
  configured :: bool
  started :: bool
  base :: m6805_base
  \<comment> \<open>digital I/O\<close>
  m_port_bits :: "port_index \<Rightarrow> u8"
  m_port_input :: "port_index \<Rightarrow> u8"
  m_port_latch :: "port_index \<Rightarrow> u8"
  m_port_ddr :: "port_index \<Rightarrow> u8"
  \<comment> \<open>timer/counter\<close>
  m_tcap_state :: bool
  m_tcr :: u8
  m_tsr :: u8
  m_tsr_seen :: u8
  m_prescaler :: u8
  m_counter :: u16
  m_icr :: u16
  m_ocr :: u16
  m_inhibit_cap :: bool
  m_inhibit_cmp :: bool
  m_trl_buf :: "bool \<Rightarrow> u8"
  m_trl_latched :: "bool \<Rightarrow> bool"
  \<comment> \<open>COP watchdogs\<close>
  m_pcop_cnt :: u32
  m_ncop_cnt :: u32
  m_coprst :: u8
  m_copcr :: u8
  m_ncope :: u8

text \<open>
  The constants of the absent headers (\<^verbatim>\<open>m68hc05.h\<close>, \<^verbatim>\<open>m6805defs.h\<close>, the
  emulator core) are parameters of the model.
\<close>

record hdr =
  M68HC05_TCAP_LINE :: nat
  M68HC05_INT_MASK :: u16
  IFLAG :: u8
  CLEAR_LINE :: int
  ASSERT_LINE :: int

text \<open>
  Values for concrete runs: the timer line is line 1, the interrupt mask holds lines 0 and
  1, the mask flag is bit 3 of the condition codes, a cleared line is 0 and an asserted
  line is 1.
\<close>

definition mame_hdr :: hdr where
  "mame_hdr = \<lparr> M68HC05_TCAP_LINE = 1, M68HC05_INT_MASK = 0x03, IFLAG = 0x08,
                CLEAR_LINE = 0, ASSERT_LINE = 1 \<rparr>"

text \<open>
  The state the constructor builds (member initialisers, lines 118 to 137); the inherited
  members, which the absent base class initialises, are taken as zero.
\<close>

definition constructed :: m68hc05 where
  "constructed = \<lparr> configured = False, started = False,
     base = \<lparr> m_pc = 0, m_x = 0, m_a = 0, m_cc = 0, stack = [],
       m_pending_interrupts = 0, m_irq_state = (\<lambda>_. 0), m_icount = 0 \<rparr>,
     m_port_bits = (\<lambda>_. 0xff), m_port_input = (\<lambda>_. 0xff),
     m_port_latch = (\<lambda>_. 0xff), m_port_ddr = (\<lambda>_. 0x00),
     m_tcap_state = False, m_tcr = 0x00, m_tsr = 0x00, m_tsr_seen = 0x00,
     m_prescaler = 0x00, m_counter = 0xfffc, m_icr = 0x0000, m_ocr = 0x0000,
     m_inhibit_cap = False, m_inhibit_cmp = False,
     m_trl_buf = (\<lambda>_. 0xfc), m_trl_latched = (\<lambda>_. False),
     m_pcop_cnt = 0, m_ncop_cnt = 0, m_coprst = 0x00, m_copcr = 0x00, m_ncope = 0 \<rparr>"

subsection \<open>Port configuration\<close>

definition set_port_bits ::
  "u8 \<Rightarrow> u8 \<Rightarrow> u8 \<Rightarrow> u8 \<Rightarrow> m68hc05 \<Rightarrow> (emu_fatalerror \<times> m68hc05) + m68hc05" where
  "set_port_bits a b c d s =
     (if configured s \<or> started s
      then Inl (Fatal ''Attempt to set physical port bits after configuration'', s)
      else Inr (s\<lparr> m_port_bits :=
                    (m_port_bits s)(0 := a, 1 := b, 2 := c, 3 := d) \<rparr>))"

text \<open>
  Modelled from the spec: \<^verbatim>\<open>port_value\<close>, declared in the absent header
  \<^verbatim>\<open>m68hc05.h\<close>: "compose the externally visible value as (cached input AND bits
  set as input) OR (output latch AND bits set as output)".
\<close>

definition port_value :: "port_index \<Rightarrow> m68hc05 \<Rightarrow> u8" where
  "port_value offset s =
     (m_port_latch s offset AND m_port_ddr s offset)
       OR (m_port_input s offset AND NOT (m_port_ddr s offset))"

text \<open>
  \<^verbatim>\<open>port_r\<close>: \<open>cb\<close> is the read callback bound to the port, \<open>None\<close> when
  \<^verbatim>\<open>isnull()\<close>; it receives the mask of the bits wanted.
\<close>

definition port_r :: "(u8 \<Rightarrow> u8) option \<Rightarrow> bool \<Rightarrow> nat \<Rightarrow> m68hc05 \<Rightarrow> u8 \<times> m68hc05" where
  "port_r cb debugger_access offset0 s =
     (let offset = (word_of_nat offset0 :: port_index);
          s1 = (case cb of
                  None \<Rightarrow> s
                | Some f \<Rightarrow>
                    (let newval = f (NOT (m_port_ddr s offset) AND m_port_bits s offset)
                                    AND m_port_bits s offset
                     in s\<lparr> m_port_input := (m_port_input s)(offset := newval) \<rparr>))
      in (port_value offset s1, s1))"

definition port_latch_w :: "nat \<Rightarrow> u8 \<Rightarrow> m68hc05 \<Rightarrow> m68hc05 \<times> event list" where
  "port_latch_w offset0 data0 s =
     (let offset = (word_of_nat offset0 :: port_index);
          data = data0 AND m_port_bits s offset;
          diff = m_port_latch s offset XOR data;
          s1 = s\<lparr> m_port_latch := (m_port_latch s)(offset := data) \<rparr>
      in if diff AND m_port_ddr s1 offset \<noteq> 0
         then (s1, [Port_cb_w offset (port_value offset s1) (m_port_ddr s1 offset)])
         else (s1, []))"

definition port_ddr_r :: "nat \<Rightarrow> m68hc05 \<Rightarrow> u8" where
  "port_ddr_r offset0 s = m_port_ddr s (word_of_nat offset0 :: port_index)"

definition port_ddr_w :: "nat \<Rightarrow> u8 \<Rightarrow> m68hc05 \<Rightarrow> m68hc05 \<times> event list" where
  "port_ddr_w offset0 data0 s =
     (let offset = (word_of_nat offset0 :: port_index);
          data = data0 AND m_port_bits s offset
      in if data \<noteq> m_port_ddr s offset
         then (let s1 = s\<lparr> m_port_ddr := (m_port_ddr s)(offset := data) \<rparr>
               in (s1, [Port_cb_w offset (port_value offset s1) (m_port_ddr s1 offset)]))
         else (s, []))"

text \<open>A run of writes to the latch and direction registers, the oldest first.\<close>

datatype port_write = Latch_w nat u8 | Ddr_w nat u8

fun port_step :: "port_write \<Rightarrow> m68hc05 \<Rightarrow> m68hc05 \<times> event list" where
  "port_step (Latch_w offset data) s = port_latch_w offset data s"
| "port_step (Ddr_w offset data) s = port_ddr_w offset data s"

fun port_run :: "port_write list \<Rightarrow> m68hc05 \<Rightarrow> m68hc05 \<times> event list" where
  "port_run [] s = (s, [])"
| "port_run (w # ws) s =
     (let (s1, ev1) = port_step w s;
          (s2, ev2) = port_run ws s1
      in (s2, ev1 @ ev2))"

subsection \<open>Timer registers\<close>

text \<open>
  The pending bit of the timer: \<^verbatim>\<open>u16(1) << M68HC05_TCAP_LINE\<close>, and the two
  statements every timer handler ends with.
\<close>

definition tcap_bit :: "hdr \<Rightarrow> u16" where
  "tcap_bit h = push_bit (M68HC05_TCAP_LINE h) 1"

abbreviation pending :: "m68hc05 \<Rightarrow> u16" where
  "pending s \<equiv> m_pending_interrupts (base s)"

definition set_pending :: "u16 \<Rightarrow> m68hc05 \<Rightarrow> m68hc05" where
  "set_pending v s = s\<lparr> base := (base s)\<lparr> m_pending_interrupts := v \<rparr> \<rparr>"

text \<open>\<^verbatim>\<open>if (m_tcr & m_tsr & 0xe0) m_pending_interrupts |= u16(1) << M68HC05_TCAP_LINE;\<close>\<close>

definition raise_if_enabled :: "hdr \<Rightarrow> m68hc05 \<Rightarrow> m68hc05" where
  "raise_if_enabled h s =
     (if m_tcr s AND m_tsr s AND 0xe0 \<noteq> 0
      then set_pending (pending s OR tcap_bit h) s else s)"

text \<open>\<^verbatim>\<open>if (!(m_tcr & m_tsr & 0xe0)) m_pending_interrupts &= ~(u16(1) << M68HC05_TCAP_LINE);\<close>\<close>

definition clear_if_idle :: "hdr \<Rightarrow> m68hc05 \<Rightarrow> m68hc05" where
  "clear_if_idle h s =
     (if m_tcr s AND m_tsr s AND 0xe0 = 0
      then set_pending (pending s AND NOT (tcap_bit h)) s else s)"

definition tcr_r :: "m68hc05 \<Rightarrow> u8" where
  "tcr_r s = m_tcr s"

definition tcr_w :: "hdr \<Rightarrow> u8 \<Rightarrow> m68hc05 \<Rightarrow> m68hc05" where
  "tcr_w h data0 s =
     (let data = data0 AND 0xe3;
          s1 = s\<lparr> m_tcr := data \<rparr>
      in if m_tcr s1 AND m_tsr s1 AND 0xe0 \<noteq> 0
         then set_pending (pending s1 OR tcap_bit h) s1
         else set_pending (pending s1 AND NOT (tcap_bit h)) s1)"

definition tsr_r :: "bool \<Rightarrow> m68hc05 \<Rightarrow> u8 \<times> m68hc05" where
  "tsr_r debugger_access s =
     (let s1 = (if \<not> debugger_access then s\<lparr> m_tsr_seen := m_tsr s \<rparr> else s)
      in (m_tsr s1, s1))"

definition icr_r :: "hdr \<Rightarrow> bool \<Rightarrow> nat \<Rightarrow> m68hc05 \<Rightarrow> u8 \<times> m68hc05" where
  "icr_r h debugger_access offset s =
     (let low = bit offset 0;
          s1 = (if \<not> debugger_access then
                  (if low then
                     (let s2 = (if bit (m_tsr_seen s) 7
                                then clear_if_idle h
                                       (s\<lparr> m_tsr := m_tsr s AND 0x7f,
                                           m_tsr_seen := m_tsr_seen s AND 0x7f \<rparr>)
                                else s)
                      in s2\<lparr> m_inhibit_cap := False \<rparr>)
                   else s\<lparr> m_inhibit_cap := True \<rparr>)
                else s)
      in (ucast (drop_bit (if low then 0 else 8) (m_icr s1)), s1))"

definition ocr_r :: "hdr \<Rightarrow> bool \<Rightarrow> nat \<Rightarrow> m68hc05 \<Rightarrow> u8 \<times> m68hc05" where
  "ocr_r h debugger_access offset s =
     (let low = bit offset 0;
          s1 = (if \<not> debugger_access \<and> low \<and> bit (m_tsr_seen s) 6
                then clear_if_idle h
                       (s\<lparr> m_tsr := m_tsr s AND 0xbf,
                           m_tsr_seen := m_tsr_seen s AND 0xbf \<rparr>)
                else s)
      in (ucast (drop_bit (if low then 0 else 8) (m_ocr s1)), s1))"

definition ocr_w :: "hdr \<Rightarrow> bool \<Rightarrow> nat \<Rightarrow> u8 \<Rightarrow> m68hc05 \<Rightarrow> m68hc05" where
  "ocr_w h debugger_access offset data s =
     (let low = bit offset 0;
          s1 = (if \<not> debugger_access then
                  (if low then
                     (let s2 = (if bit (m_tsr_seen s) 6
                                then clear_if_idle h
                                       (s\<lparr> m_tsr := m_tsr s AND 0xbf,
                                           m_tsr_seen := m_tsr_seen s AND 0xbf \<rparr>)
                                else s)
                      in s2\<lparr> m_inhibit_cmp := False \<rparr>)
                   else s\<lparr> m_inhibit_cmp := True \<rparr>)
                else s)
      in s1\<lparr> m_ocr := (m_ocr s1 AND (if low then 0xff00 else 0x00ff))
                          OR push_bit (if low then 0 else 8) (ucast data) \<rparr>)"

definition timer_r :: "hdr \<Rightarrow> bool \<Rightarrow> nat \<Rightarrow> m68hc05 \<Rightarrow> u8 \<times> m68hc05" where
  "timer_r h debugger_access offset s =
     (let low = bit offset 0;
          alt = bit offset 1
      in if low then
           (let s1 = (if \<not> debugger_access then
                        (let s2 = s\<lparr> m_trl_latched := (m_trl_latched s)(alt := False) \<rparr>
                         in if \<not> alt \<and> bit (m_tsr_seen s2) 5
                            then clear_if_idle h
                                   (s2\<lparr> m_tsr := m_tsr s2 AND 0xdf,
                                        m_tsr_seen := m_tsr_seen s2 AND 0xdf \<rparr>)
                            else s2)
                      else s)
            in (m_trl_buf s1 alt, s1))
         else
           (let s1 = (if \<not> debugger_access \<and> \<not> m_trl_latched s alt
                      then s\<lparr> m_trl_latched := (m_trl_latched s)(alt := True),
                              m_trl_buf := (m_trl_buf s)(alt := ucast (m_counter s)) \<rparr>
                      else s)
            in (ucast (drop_bit 8 (m_counter s1)), s1)))"

subsection \<open>COP watchdog registers\<close>

definition coprst_w :: "u8 \<Rightarrow> m68hc05 \<Rightarrow> m68hc05" where
  "coprst_w data s =
     (if 0x55 = data then s\<lparr> m_coprst := data \<rparr>
      else if 0xaa = data then
        (let s1 = (if 0x55 = m_coprst s
                   then s\<lparr> m_pcop_cnt := m_pcop_cnt s AND 0x00007fff \<rparr> else s)
         in s1\<lparr> m_coprst := data \<rparr>)
      else s)"

definition copcr_r :: "bool \<Rightarrow> m68hc05 \<Rightarrow> u8 \<times> m68hc05" where
  "copcr_r debugger_access s =
     (let result = m_copcr s in (result, s\<lparr> m_copcr := m_copcr s AND 0xef \<rparr>))"

definition copcr_w :: "u8 \<Rightarrow> m68hc05 \<Rightarrow> m68hc05" where
  "copcr_w data s = s\<lparr> m_copcr := (m_copcr s AND 0xf4) OR (data AND 0x0f) \<rparr>"

definition copr_w :: "u8 \<Rightarrow> m68hc05 \<Rightarrow> m68hc05" where
  "copr_w data s = (if \<not> bit data 0 then s\<lparr> m_ncop_cnt := 0 \<rparr> else s)"

text \<open>A run of writes to the reset-arm register, the oldest first.\<close>

fun coprst_ws :: "u8 list \<Rightarrow> m68hc05 \<Rightarrow> m68hc05" where
  "coprst_ws [] s = s"
| "coprst_ws (d # ds) s = coprst_ws ds (coprst_w d s)"

subsection \<open>Start and reset\<close>

text \<open>
  \<^verbatim>\<open>device_start\<close> and \<^verbatim>\<open>device_reset\<close> first call the method of the absent base
  class, which can reach the inherited members only: a parameter on \<^typ>\<open>m6805_base\<close>.
  Resolving callbacks and registering save-state items change no member.
\<close>

definition device_start :: "(m6805_base \<Rightarrow> m6805_base) \<Rightarrow> m68hc05 \<Rightarrow> m68hc05" where
  "device_start base_device_start s =
     s\<lparr> base := base_device_start (base s),
        m_port_input := (\<lambda>_. 0xff),
        m_port_latch := (\<lambda>_. 0xff),
        m_tcap_state := False,
        m_tcr := 0x00,
        m_tsr := 0x00,
        m_icr := 0x0000,
        m_ocr := 0x0000,
        m_pcop_cnt := 0,
        m_coprst := 0x00,
        m_copcr := 0x00,
        m_ncope := 0 \<rparr>"

definition device_reset :: "(m6805_base \<Rightarrow> m6805_base) \<Rightarrow> m68hc05 \<Rightarrow> m68hc05" where
  "device_reset base_device_reset s =
     (let s1 = s\<lparr> base := base_device_reset (base s) \<rparr>;
          s2 = s1\<lparr> m_port_ddr := (\<lambda>_. 0x00) \<rparr>;
          s3 = s2\<lparr> m_tcr := m_tcr s2 AND 0x02,
                   m_tsr_seen := 0x00,
                   m_prescaler := 0,
                   m_counter := 0xfffc,
                   m_inhibit_cap := False,
                   m_inhibit_cmp := False \<rparr>;
          s4 = s3\<lparr> m_trl_buf := (\<lambda>_. ucast (m_counter s3)),
                   m_trl_latched := (\<lambda>_. False) \<rparr>
      in s4\<lparr> m_ncop_cnt := 0, m_copcr := m_copcr s4 AND 0x10 \<rparr>)"

subsection \<open>Input lines\<close>

text \<open>
  Modelled from the spec: the accessors \<^verbatim>\<open>tcr_iedg\<close>, \<^verbatim>\<open>tcr_olvl\<close>,
  \<^verbatim>\<open>copcr_copf\<close>, \<^verbatim>\<open>copcr_pcope\<close> and \<^verbatim>\<open>copcr_cm\<close> of the absent header
  \<^verbatim>\<open>m68hc05.h\<close> (edge-polarity and output-level bits of the control register; fired
  status, enable and two-bit timeout field of the watchdog control register), at the bit
  positions the handlers' own log lines and masks give: IEDG bit 1, OLVL bit 0, COPF
  bit 4, PCOPE bit 2, CM bits 1..0.
\<close>

definition tcr_iedg :: "m68hc05 \<Rightarrow> bool" where
  "tcr_iedg s = bit (m_tcr s) 1"

definition tcr_olvl :: "m68hc05 \<Rightarrow> bool" where
  "tcr_olvl s = bit (m_tcr s) 0"

definition copcr_copf :: "m68hc05 \<Rightarrow> bool" where
  "copcr_copf s = bit (m_copcr s) 4"

definition copcr_pcope :: "m68hc05 \<Rightarrow> bool" where
  "copcr_pcope s = bit (m_copcr s) 2"

definition copcr_cm :: "m68hc05 \<Rightarrow> u8" where
  "copcr_cm s = m_copcr s AND 0x03"

definition execute_set_input :: "hdr \<Rightarrow> nat \<Rightarrow> int \<Rightarrow> m68hc05 \<Rightarrow> m68hc05" where
  "execute_set_input h inputnum state s =
     (if inputnum = M68HC05_TCAP_LINE h then
        (let s1 = (if ((state \<noteq> 0) \<noteq> m_tcap_state s) \<and> ((state \<noteq> 0) = tcr_iedg s)
                   then (if \<not> m_inhibit_cap s
                         then raise_if_enabled h
                                (s\<lparr> m_tsr := m_tsr s OR 0x80, m_icr := m_counter s \<rparr>)
                         else s)
                   else s)
         in s1\<lparr> m_tcap_state := (state \<noteq> 0) \<rparr>)
      else
        (if m_irq_state (base s) inputnum \<noteq> state then
           (let s1 = s\<lparr> base := (base s)\<lparr> m_irq_state := (m_irq_state (base s))
                          (inputnum := (if state = ASSERT_LINE h then ASSERT_LINE h
                                        else CLEAR_LINE h)) \<rparr> \<rparr>
            in if state \<noteq> CLEAR_LINE h
               then set_pending (pending s1 OR push_bit inputnum 1) s1
               else s1)
         else s))"

subsection \<open>Cycle accounting\<close>

text \<open>
  \<^verbatim>\<open>burn_cycles\<close> is three blocks in sequence, each under its own comment in the
  source: the timer ("calculate new timer values"), the programmable COP and the
  non-programmable COP.
\<close>

definition burn_timer :: "hdr \<Rightarrow> u32 \<Rightarrow> m68hc05 \<Rightarrow> m68hc05 \<times> event list" where
  "burn_timer h count s =
     (let ps_opt = (4 :: nat);
          ps_mask = ((push_bit ps_opt 1 - 1) :: u32);
          increments = drop_bit ps_opt (count + (ucast (m_prescaler s) AND ps_mask));
          new_counter = (ucast (m_counter s) :: u32) + increments;
          timer_rollover = ((0x010000 :: u32) > ucast (m_counter s) \<and> 0x010000 \<le> new_counter);
          output_compare_match =
            (m_ocr s > m_counter s \<and> (ucast (m_ocr s) :: u32) \<le> new_counter);
          s1 = s\<lparr> m_prescaler := ucast ((count + ucast (m_prescaler s)) AND ps_mask),
                  m_counter := ucast new_counter \<rparr>;
          s2 = (if timer_rollover then s1\<lparr> m_tsr := m_tsr s1 OR 0x20 \<rparr> else s1);
          (s3, ev) =
            (if output_compare_match \<and> \<not> m_inhibit_cmp s2
             then (s2\<lparr> m_tsr := m_tsr s2 OR 0x40 \<rparr>, [Tcmp_cb (tcr_olvl s2)])
             else (s2, []))
      in (raise_if_enabled h s3, ev))"

definition run_pcop :: "u32 \<Rightarrow> m68hc05 \<Rightarrow> m68hc05 \<times> event list" where
  "run_pcop count s =
     (let pcop_timeout = (push_bit (unat (push_bit 1 (copcr_cm s)) + 15) 1 :: u32);
          (s1, ev) =
            (if copcr_pcope s
                \<and> pcop_timeout \<le> (m_pcop_cnt s AND (pcop_timeout - 1)) + count
             then (s\<lparr> m_copcr := m_copcr s OR 0x10 \<rparr>, [Reset_pulse])
             else (s, []))
      in (s1\<lparr> m_pcop_cnt := (m_pcop_cnt s1 + count) AND (push_bit 21 1 - 1) \<rparr>, ev))"

definition run_ncop :: "u32 \<Rightarrow> m68hc05 \<Rightarrow> m68hc05 \<times> event list" where
  "run_ncop count s =
     (let s1 = s\<lparr> m_ncop_cnt := m_ncop_cnt s + count \<rparr>;
          ev = (if (push_bit 17 1 :: u32) \<le> m_ncop_cnt s1 then [Reset_pulse] else [])
      in (s1\<lparr> m_ncop_cnt := m_ncop_cnt s1 AND (push_bit 17 1 - 1) \<rparr>, ev))"

definition burn_cycles :: "hdr \<Rightarrow> u32 \<Rightarrow> m68hc05 \<Rightarrow> m68hc05 \<times> event list" where
  "burn_cycles h count s =
     (let (s1, ev_timer) = burn_timer h count s;
          (s2, ev_pcop) = run_pcop count s1;
          (s3, ev_ncop) = run_ncop count s2
      in (s3, ev_timer @ ev_pcop @ ev_ncop))"

text \<open>A run of accounting calls, the oldest first, with the events of all of them.\<close>

fun burn_run :: "hdr \<Rightarrow> u32 list \<Rightarrow> m68hc05 \<Rightarrow> m68hc05 \<times> event list" where
  "burn_run h [] s = (s, [])"
| "burn_run h (c # cs) s =
     (let (s1, ev1) = burn_cycles h c s;
          (s2, ev2) = burn_run h cs s1
      in (s2, ev1 @ ev2))"

text \<open>
  The condition under which the programmable COP block fires, and the number of counter
  bits its timeout \<^verbatim>\<open>u32(1) << ((copcr_cm() << 1) + 15)\<close> compares.
\<close>

definition pcop_fires :: "u32 \<Rightarrow> m68hc05 \<Rightarrow> bool" where
  "pcop_fires c s \<longleftrightarrow> copcr_pcope s \<and>
      (push_bit (unat (push_bit 1 (copcr_cm s)) + 15) 1 :: u32)
        \<le> (m_pcop_cnt s AND (push_bit (unat (push_bit 1 (copcr_cm s)) + 15) 1 - 1)) + c"

definition pcop_bits :: "m68hc05 \<Rightarrow> nat" where
  "pcop_bits s = unat (push_bit 1 (copcr_cm s)) + 15"

subsection \<open>Interrupt entry\<close>

text \<open>
  Modelled from the spec: \<^verbatim>\<open>pushbyte\<close>, \<^verbatim>\<open>pushword\<close> and \<^verbatim>\<open>SEI\<close> of the
  absent base class and of \<^verbatim>\<open>m6805defs.h\<close>: "push ... onto the stack", "set the
  global interrupt-mask flag".
\<close>

definition pushbyte :: "u8 \<Rightarrow> m68hc05 \<Rightarrow> m68hc05" where
  "pushbyte b s = s\<lparr> base := (base s)\<lparr> stack := Byte b # stack (base s) \<rparr> \<rparr>"

definition pushword :: "u16 \<Rightarrow> m68hc05 \<Rightarrow> m68hc05" where
  "pushword w s = s\<lparr> base := (base s)\<lparr> stack := Word16 w # stack (base s) \<rparr> \<rparr>"

definition SEI :: "hdr \<Rightarrow> m68hc05 \<Rightarrow> m68hc05" where
  "SEI h s = s\<lparr> base := (base s)\<lparr> m_cc := m_cc (base s) OR IFLAG h \<rparr> \<rparr>"

definition M68HC05_VECTOR_TIMER :: u16 where
  "M68HC05_VECTOR_TIMER = 0xfff8"

text \<open>
  \<^verbatim>\<open>interrupt\<close>: \<open>rm16\<close> is the 16-bit bus read of the absent base class, the word
  stored at an address. The external-line branch is commented out in the source and so
  is absent here.
\<close>

definition interrupt ::
  "hdr \<Rightarrow> (u16 \<Rightarrow> u16) \<Rightarrow> m68hc05 \<Rightarrow> (emu_fatalerror \<times> m68hc05) + (m68hc05 \<times> event list)" where
  "interrupt h rm16 s =
     (if pending s AND M68HC05_INT_MASK h \<noteq> 0 then
        (if m_cc (base s) AND IFLAG h = 0 then
           (let s1 = pushword (m_pc (base s)) s;
                s2 = pushbyte (m_x (base s1)) s1;
                s3 = pushbyte (m_a (base s2)) s2;
                s4 = pushbyte (m_cc (base s3)) s3;
                s5 = SEI h s4
            in if bit (pending s5) (M68HC05_TCAP_LINE h) then
                 (let s6 = s5\<lparr> base := (base s5)\<lparr> m_pc := rm16 M68HC05_VECTOR_TIMER \<rparr> \<rparr>;
                      s7 = s6\<lparr> base := (base s6)\<lparr> m_icount := m_icount (base s6) - 10 \<rparr> \<rparr>;
                      (s8, ev) = burn_cycles h 10 s7
                  in Inr (s8, Irq_callback # ev))
               else Inl (Fatal ''Unknown pending interrupt'', s5))
         else Inr (s, []))
      else Inr (s, []))"

text \<open>
  The state \<^verbatim>\<open>interrupt\<close> has built when it calls \<^verbatim>\<open>burn_cycles(10)\<close> on the
  timer branch: the four pushes, the mask flag, the vector in the program counter and
  the cycle budget charged.
\<close>

definition pushed :: "m68hc05 \<Rightarrow> hdr \<Rightarrow> (u16 \<Rightarrow> u16) \<Rightarrow> m68hc05" where
  "pushed s h rm16 = s\<lparr> base := (base s)\<lparr>
       stack := Byte (m_cc (base s)) # Byte (m_a (base s)) # Byte (m_x (base s))
                  # Word16 (m_pc (base s)) # stack (base s),
       m_cc := m_cc (base s) OR IFLAG h,
       m_pc := rm16 M68HC05_VECTOR_TIMER,
       m_icount := m_icount (base s) - 10 \<rparr> \<rparr>"

subsection \<open>The device as a whole\<close>

text \<open>
  Every way this file changes the device after start-up, as one datatype: the register
  handlers the address maps dispatch to, the input lines, the cycle accounting and the
  interrupt poll. \<open>perform\<close> keeps the state and drops values read and events; for the
  interrupt poll it keeps the state at the throw when the poll is fatal.
\<close>

datatype operation =
    Port_r "(u8 \<Rightarrow> u8) option" nat
  | Port_latch_w nat u8
  | Port_ddr_w nat u8
  | Tcr_w u8
  | Tsr_r
  | Icr_r nat
  | Ocr_r nat
  | Ocr_w nat u8
  | Timer_r nat
  | Coprst_w u8
  | Copcr_r
  | Copcr_w u8
  | Copr_w u8
  | Set_input nat int
  | Burn_cycles u32
  | Interrupt "u16 \<Rightarrow> u16"

fun perform :: "hdr \<Rightarrow> bool \<Rightarrow> operation \<Rightarrow> m68hc05 \<Rightarrow> m68hc05" where
  "perform h dbg (Port_r cb offset) s = snd (port_r cb dbg offset s)"
| "perform h dbg (Port_latch_w offset data) s = fst (port_latch_w offset data s)"
| "perform h dbg (Port_ddr_w offset data) s = fst (port_ddr_w offset data s)"
| "perform h dbg (Tcr_w data) s = tcr_w h data s"
| "perform h dbg Tsr_r s = snd (tsr_r dbg s)"
| "perform h dbg (Icr_r offset) s = snd (icr_r h dbg offset s)"
| "perform h dbg (Ocr_r offset) s = snd (ocr_r h dbg offset s)"
| "perform h dbg (Ocr_w offset data) s = ocr_w h dbg offset data s"
| "perform h dbg (Timer_r offset) s = snd (timer_r h dbg offset s)"
| "perform h dbg (Coprst_w data) s = coprst_w data s"
| "perform h dbg Copcr_r s = snd (copcr_r dbg s)"
| "perform h dbg (Copcr_w data) s = copcr_w data s"
| "perform h dbg (Copr_w data) s = copr_w data s"
| "perform h dbg (Set_input inputnum state) s = execute_set_input h inputnum state s"
| "perform h dbg (Burn_cycles count) s = fst (burn_cycles h count s)"
| "perform h dbg (Interrupt rm16) s =
     (case interrupt h rm16 s of Inl (e, s') \<Rightarrow> s' | Inr (s', ev) \<Rightarrow> s')"

text \<open>
  A run of operations, the oldest first, each with its access kind; and the runs in which
  the program never reads the status register (a debugger read does not count).
\<close>

fun perform_all :: "hdr \<Rightarrow> (bool \<times> operation) list \<Rightarrow> m68hc05 \<Rightarrow> m68hc05" where
  "perform_all h [] s = s"
| "perform_all h ((dbg, op) # ops) s = perform_all h ops (perform h dbg op s)"

definition no_status_read :: "(bool \<times> operation) list \<Rightarrow> bool" where
  "no_status_read ops = list_all (\<lambda>(dbg, op). dbg \<or> op \<noteq> Tsr_r) ops"

text \<open>
  The timer bit of the pending mask is set only while an enabled status flag is up
  (\<^verbatim>\<open>m_tcr & m_tsr & 0xe0\<close>, the test the handlers themselves make).
\<close>

definition timer_enabled :: "m68hc05 \<Rightarrow> bool" where
  "timer_enabled s \<longleftrightarrow> m_tcr s AND m_tsr s AND 0xe0 \<noteq> 0"

definition tcap_inv :: "hdr \<Rightarrow> m68hc05 \<Rightarrow> bool" where
  "tcap_inv h s \<longleftrightarrow> (bit (pending s) (M68HC05_TCAP_LINE h) \<longrightarrow> timer_enabled s)"

subsection \<open>Concrete runs\<close>

text \<open>
  A vector table with distinct entries at the timer vector and at 0xFFFA (the external
  interrupt vector, commented out in the source), and a device with the timer interrupt
  and external line 0 both pending: overflow interrupt enabled, 64 cycles accounted from
  the constructed counter 0xFFFC, line 0 asserted.
\<close>

definition vectors :: "u16 \<Rightarrow> u16" where
  "vectors a = (if a = 0xfff8 then 0x1234 else if a = 0xfffa then 0x5678 else 0)"

definition both_pending :: m68hc05 where
  "both_pending = execute_set_input mame_hdr 0 1
     (fst (burn_cycles mame_hdr 64 (tcr_w mame_hdr 0x20 constructed)))"

section \<open>Port configuration: configuration-time error\<close>

text \<open>
  C9. \<^verbatim>\<open>set_port_bits\<close> raises the fatal error exactly when the device is already
  configured or started, and the state at the throw is the state of the call (the
  port-bit masks are untouched); otherwise it returns with the four given masks stored
  in entries 0 to 3 and nothing else changed.
\<close>

theorem set_port_bits_fatal_iff:
  "((\<exists>e s'. set_port_bits a b c d s = Inl (e, s')) \<longleftrightarrow> (configured s \<or> started s))
   \<and> (\<forall>e s'. set_port_bits a b c d s = Inl (e, s') \<longrightarrow>
         s' = s \<and> m_port_bits s' = m_port_bits s)
   \<and> (\<not> (configured s \<or> started s) \<longrightarrow>
         (\<exists>s'. set_port_bits a b c d s = Inr s'
            \<and> m_port_bits s' 0 = a \<and> m_port_bits s' 1 = b
            \<and> m_port_bits s' 2 = c \<and> m_port_bits s' 3 = d
            \<and> s' = s\<lparr> m_port_bits := m_port_bits s' \<rparr>))"
  by (auto simp: set_port_bits_def)

theorem set_port_bits_fatal_iff_witness:
  "(\<exists>s'. set_port_bits 0xff 0xff 0xff 0xbf constructed = Inr s'
      \<and> m_port_bits s' 0 = 0xff \<and> m_port_bits s' 3 = 0xbf)
   \<and> (\<exists>e. set_port_bits 1 2 3 4 (constructed\<lparr> started := True \<rparr>)
         = Inl (e, constructed\<lparr> started := True \<rparr>))"
proof -
  have ok: "\<not> (configured constructed \<or> started constructed)"
    by (simp add: constructed_def)
  have late: "configured (constructed\<lparr> started := True \<rparr>)
      \<or> started (constructed\<lparr> started := True \<rparr>)"
    by simp
  from set_port_bits_fatal_iff [of "0xff" "0xff" "0xff" "0xbf" constructed] ok
  have first: "\<exists>s'. set_port_bits 0xff 0xff 0xff 0xbf constructed = Inr s'
      \<and> m_port_bits s' 0 = 0xff \<and> m_port_bits s' 3 = 0xbf"
    by blast
  from set_port_bits_fatal_iff [of 1 2 3 4 "constructed\<lparr> started := True \<rparr>"] late
  have second: "\<exists>e. set_port_bits 1 2 3 4 (constructed\<lparr> started := True \<rparr>)
         = Inl (e, constructed\<lparr> started := True \<rparr>)"
    by metis
  from first second show ?thesis by blast
qed

section \<open>Debugger accesses\<close>

text \<open>
  The handlers that test \<^verbatim>\<open>space.debugger_access()\<close> leave the device untouched on
  a debugger access (a debugger write to the compare register stores the byte and nothing
  else).
\<close>

lemma debugger_access_guarded:
  "snd (tsr_r True s) = s \<and> snd (icr_r h True off s) = s \<and> snd (ocr_r h True off s) = s
   \<and> snd (timer_r h True off s) = s
   \<and> ocr_w h True off d s = s\<lparr> m_ocr := m_ocr (ocr_w h True off d s) \<rparr>"
  by (simp add: tsr_r_def icr_r_def ocr_r_def timer_r_def ocr_w_def Let_def)

text \<open>
  C1. A debugger access must leave the device state unchanged, the COPF bit of COPCR
  included. \<^verbatim>\<open>copcr_r\<close> does not test the access kind: a debugger read of COPCR with
  COPF set returns 0x10 and clears the bit, so the program's next read returns 0x00
  where, without the debugger read, it would have returned 0x10.
\<close>

theorem copcr_r_debugger_clears_copf:
  "copcr_r True (constructed\<lparr> m_copcr := 0x10 \<rparr>) = (0x10, constructed\<lparr> m_copcr := 0x00 \<rparr>)
   \<and> fst (copcr_r False (snd (copcr_r True (constructed\<lparr> m_copcr := 0x10 \<rparr>)))) = 0x00
   \<and> fst (copcr_r False (constructed\<lparr> m_copcr := 0x10 \<rparr>)) = 0x10"
  by (simp add: copcr_r_def)

section \<open>The status register, bit by bit\<close>

lemma bit_pow_u8: "k < 8 \<Longrightarrow> bit (2 ^ k :: u8) n \<longleftrightarrow> n = k"
  by (auto simp add: bit_exp_iff)

lemma bit_80: "bit (0x80 :: u8) n \<longleftrightarrow> n = 7"
  using bit_pow_u8 [of 7 n] by simp

lemma bit_40: "bit (0x40 :: u8) n \<longleftrightarrow> n = 6"
  using bit_pow_u8 [of 6 n] by simp

lemma bit_20: "bit (0x20 :: u8) n \<longleftrightarrow> n = 5"
  using bit_pow_u8 [of 5 n] by simp

lemma bit_and_not: "bit (w AND NOT m) n \<longleftrightarrow> bit w n \<and> \<not> bit (m :: u8) n"
  by (auto simp only: bit_and_iff bit_not_iff dest: bit_imp_possible_bit)

lemma bit_and_7f: "bit (w AND (0x7f :: u8)) n \<longleftrightarrow> bit w n \<and> n \<noteq> 7"
proof -
  have "(0x7f :: u8) = NOT 0x80" by simp
  then have "bit (w AND (0x7f :: u8)) n \<longleftrightarrow> bit (w AND NOT 0x80) n" by (simp only:)
  then show ?thesis by (simp only: bit_and_not bit_80)
qed

lemma bit_and_bf: "bit (w AND (0xbf :: u8)) n \<longleftrightarrow> bit w n \<and> n \<noteq> 6"
proof -
  have "(0xbf :: u8) = NOT 0x40" by simp
  then have "bit (w AND (0xbf :: u8)) n \<longleftrightarrow> bit (w AND NOT 0x40) n" by (simp only:)
  then show ?thesis by (simp only: bit_and_not bit_40)
qed

lemma bit_and_df: "bit (w AND (0xdf :: u8)) n \<longleftrightarrow> bit w n \<and> n \<noteq> 5"
proof -
  have "(0xdf :: u8) = NOT 0x20" by simp
  then have "bit (w AND (0xdf :: u8)) n \<longleftrightarrow> bit (w AND NOT 0x20) n" by (simp only:)
  then show ?thesis by (simp only: bit_and_not bit_20)
qed

lemma splice_idem: "((x AND m) OR y) AND m OR y = (x AND m) OR (y :: u16)"
  by (auto simp: bit_eq_iff bit_and_iff bit_or_iff)

lemma icr_r_tsr:
  "m_tsr (snd (icr_r h False off s))
     = (if odd off \<and> bit (m_tsr_seen s) 7 then m_tsr s AND 0x7f else m_tsr s)"
  by (simp add: icr_r_def Let_def bit_0 clear_if_idle_def set_pending_def)

lemma ocr_r_tsr:
  "m_tsr (snd (ocr_r h False off s))
     = (if odd off \<and> bit (m_tsr_seen s) 6 then m_tsr s AND 0xbf else m_tsr s)"
  by (simp add: ocr_r_def Let_def bit_0 clear_if_idle_def set_pending_def)

lemma ocr_w_tsr:
  "m_tsr (ocr_w h False off d s)
     = (if odd off \<and> bit (m_tsr_seen s) 6 then m_tsr s AND 0xbf else m_tsr s)"
  by (simp add: ocr_w_def Let_def bit_0 clear_if_idle_def set_pending_def)

lemma timer_r_tsr:
  "m_tsr (snd (timer_r h False off s))
     = (if odd off \<and> \<not> bit off 1 \<and> bit (m_tsr_seen s) 5 then m_tsr s AND 0xdf else m_tsr s)"
  by (simp add: timer_r_def Let_def bit_0 clear_if_idle_def set_pending_def)

lemma icr_r_twice:
  "snd (icr_r h False off (snd (icr_r h False off s))) = snd (icr_r h False off s)"
  by (simp add: icr_r_def Let_def bit_0 bit_and_7f clear_if_idle_def set_pending_def)

lemma ocr_r_twice:
  "snd (ocr_r h False off (snd (ocr_r h False off s))) = snd (ocr_r h False off s)"
  by (simp add: ocr_r_def Let_def bit_0 bit_and_bf clear_if_idle_def set_pending_def)

lemma ocr_w_twice:
  "ocr_w h False off d (ocr_w h False off d s) = ocr_w h False off d s"
  by (simp add: ocr_w_def Let_def bit_0 bit_and_bf clear_if_idle_def set_pending_def
      splice_idem)

lemma timer_r_twice:
  "snd (timer_r h False off (snd (timer_r h False off s))) = snd (timer_r h False off s)"
  by (simp add: timer_r_def Let_def bit_0 bit_and_df clear_if_idle_def set_pending_def)

section \<open>Programmable watchdog: the reset-arm register\<close>

lemma coprst_ws_ignored:
  "coprst_ws ds s = coprst_ws (filter (\<lambda>d. d = 0x55 \<or> d = 0xaa) ds) s"
  by (induction ds arbitrary: s) (simp_all add: coprst_w_def)

lemma and_7fff: "w AND (0x7fff :: u32) = take_bit 15 w"
  by (simp add: take_bit_eq_mask mask_eq_exp_minus_1)

lemma drop_take_15: "drop_bit 15 (take_bit 15 (w :: u32)) = 0"
  by (simp add: drop_bit_take_bit)

text \<open>
  C3, as the code has it. A write to the reset-arm register changes the counter only
  when 0xAA is written while the arm byte holds 0x55; the counter is then ANDed with
  0x7FFF: its low 15 bits are kept and the bits above them are cleared. The arm byte
  takes the written value only for 0x55 and 0xAA, so a write of any other byte changes
  nothing at all, and such writes between the 0x55 and the 0xAA do not break the
  sequence: a run of writes acts as the run of its 0x55 and 0xAA writes alone.
\<close>

theorem coprst_w_arming:
  "coprst_ws ds s = coprst_ws (filter (\<lambda>d. d = 0x55 \<or> d = 0xaa) ds) s
   \<and> m_pcop_cnt (coprst_w d s)
       = (if d = 0xaa \<and> m_coprst s = 0x55 then m_pcop_cnt s AND 0x7fff else m_pcop_cnt s)
   \<and> m_coprst (coprst_w d s) = (if d = 0x55 \<or> d = 0xaa then d else m_coprst s)
   \<and> (d \<noteq> 0x55 \<and> d \<noteq> 0xaa \<longrightarrow> coprst_w d s = s)
   \<and> m_pcop_cnt (coprst_ws [0x55, 0xaa] s) = m_pcop_cnt s AND 0x7fff
   \<and> take_bit 15 (m_pcop_cnt (coprst_ws [0x55, 0xaa] s)) = take_bit 15 (m_pcop_cnt s)
   \<and> drop_bit 15 (m_pcop_cnt (coprst_ws [0x55, 0xaa] s)) = 0"
proof (intro conjI)
  show "coprst_ws ds s = coprst_ws (filter (\<lambda>d. d = 0x55 \<or> d = 0xaa) ds) s"
    by (rule coprst_ws_ignored)
  have run: "m_pcop_cnt (coprst_ws [0x55, 0xaa] s) = take_bit 15 (m_pcop_cnt s)"
    by (simp add: coprst_w_def and_7fff)
  then show "m_pcop_cnt (coprst_ws [0x55, 0xaa] s) = m_pcop_cnt s AND 0x7fff"
    by (simp add: and_7fff)
  from run show "take_bit 15 (m_pcop_cnt (coprst_ws [0x55, 0xaa] s)) = take_bit 15 (m_pcop_cnt s)"
    by simp
  from run show "drop_bit 15 (m_pcop_cnt (coprst_ws [0x55, 0xaa] s)) = 0"
    by (simp add: drop_take_15)
qed (simp_all add: coprst_w_def)

theorem coprst_w_arming_witness:
  "coprst_w 0x12 (constructed\<lparr> m_coprst := 0x55, m_pcop_cnt := 0x1fffff \<rparr>)
     = constructed\<lparr> m_coprst := 0x55, m_pcop_cnt := 0x1fffff \<rparr>
   \<and> m_pcop_cnt (coprst_ws [0x55, 0xaa] (constructed\<lparr> m_pcop_cnt := 0x1fffff \<rparr>)) = 0x7fff"
  using coprst_w_arming [of "[]" "constructed\<lparr> m_coprst := 0x55, m_pcop_cnt := 0x1fffff \<rparr>" "0x12"]
    coprst_w_arming [of "[]" "constructed\<lparr> m_pcop_cnt := 0x1fffff \<rparr>" "0x12"]
  by simp

text \<open>
  C3 as the claim states it fails twice. From a counter of 0x1FFFFF the sequence 0x55,
  0xAA leaves 0x7FFF: the low 15 bits are all still set, it is the bits above them that
  were cleared. And the sequence 0x55, 0x12, 0xAA, with another write in between, has
  the same effect.
\<close>

theorem coprst_keeps_low_bits:
  "m_pcop_cnt (coprst_ws [0x55, 0xaa] (constructed\<lparr> m_pcop_cnt := 0x1fffff \<rparr>)) = 0x7fff
   \<and> m_pcop_cnt (coprst_ws [0x55, 0xaa] (constructed\<lparr> m_pcop_cnt := 0x1fffff \<rparr>)) AND 0x7fff \<noteq> 0
   \<and> m_pcop_cnt (coprst_ws [0x55, 0x12, 0xaa] (constructed\<lparr> m_pcop_cnt := 0x1fffff \<rparr>)) = 0x7fff"
  by (simp add: coprst_w_def constructed_def)

section \<open>Port writes and the output callback\<close>

lemma visible_change:
  "((((l' :: u8) AND d) OR (i AND NOT d)) XOR ((l AND d) OR (i AND NOT d))) AND d
     = (l XOR l') AND d"
  by (auto simp: bit_eq_iff bit_and_iff bit_or_iff bit_xor_iff bit_not_iff)

text \<open>
  C8, as the code has it. The visible value of a port is (input AND NOT DDR) OR (latch
  AND DDR). A latch write stores the value masked to the physical bits and invokes the
  callback once, with the new visible value and the DDR, exactly when the visible value
  changed on an output-configured bit, and not at all otherwise. A DDR write stores the
  masked value and invokes the callback once exactly when the masked value differs from
  the DDR, whether or not the visible value changes. No write invokes it twice.
\<close>

theorem port_write_callback:
  "port_value i s = (m_port_input s i AND NOT (m_port_ddr s i)) OR (m_port_latch s i AND m_port_ddr s i)
   \<and> fst (port_latch_w off d s)
       = s\<lparr> m_port_latch := (m_port_latch s)(word_of_nat off := d AND m_port_bits s (word_of_nat off)) \<rparr>
   \<and> snd (port_latch_w off d s)
       = (if (port_value (word_of_nat off) (fst (port_latch_w off d s)) XOR port_value (word_of_nat off) s)
               AND m_port_ddr s (word_of_nat off) \<noteq> 0
          then [Port_cb_w (word_of_nat off) (port_value (word_of_nat off) (fst (port_latch_w off d s)))
                  (m_port_ddr s (word_of_nat off))]
          else [])
   \<and> fst (port_ddr_w off d s)
       = s\<lparr> m_port_ddr := (m_port_ddr s)(word_of_nat off := d AND m_port_bits s (word_of_nat off)) \<rparr>
   \<and> snd (port_ddr_w off d s)
       = (if d AND m_port_bits s (word_of_nat off) \<noteq> m_port_ddr s (word_of_nat off)
          then [Port_cb_w (word_of_nat off) (port_value (word_of_nat off) (fst (port_ddr_w off d s)))
                  (d AND m_port_bits s (word_of_nat off))]
          else [])
   \<and> length (snd (port_run ws s)) \<le> length ws"
proof (intro conjI)
  show "port_value i s = (m_port_input s i AND NOT (m_port_ddr s i)) OR (m_port_latch s i AND m_port_ddr s i)"
    by (simp add: port_value_def or.commute)
  show "fst (port_latch_w off d s)
       = s\<lparr> m_port_latch := (m_port_latch s)(word_of_nat off := d AND m_port_bits s (word_of_nat off)) \<rparr>"
    by (simp add: port_latch_w_def Let_def)
  show "snd (port_latch_w off d s)
       = (if (port_value (word_of_nat off) (fst (port_latch_w off d s)) XOR port_value (word_of_nat off) s)
               AND m_port_ddr s (word_of_nat off) \<noteq> 0
          then [Port_cb_w (word_of_nat off) (port_value (word_of_nat off) (fst (port_latch_w off d s)))
                  (m_port_ddr s (word_of_nat off))]
          else [])"
    by (simp add: port_latch_w_def port_value_def Let_def visible_change)
  show "fst (port_ddr_w off d s)
       = s\<lparr> m_port_ddr := (m_port_ddr s)(word_of_nat off := d AND m_port_bits s (word_of_nat off)) \<rparr>"
    by (simp add: port_ddr_w_def Let_def)
  show "snd (port_ddr_w off d s)
       = (if d AND m_port_bits s (word_of_nat off) \<noteq> m_port_ddr s (word_of_nat off)
          then [Port_cb_w (word_of_nat off) (port_value (word_of_nat off) (fst (port_ddr_w off d s)))
                  (d AND m_port_bits s (word_of_nat off))]
          else [])"
    by (simp add: port_ddr_w_def Let_def)
  show "length (snd (port_run ws s)) \<le> length ws"
  proof (induction ws arbitrary: s)
    case Nil
    show ?case by simp
  next
    case (Cons w ws)
    have "length (snd (port_step w s)) \<le> 1"
      by (cases w) (simp_all add: port_latch_w_def port_ddr_w_def Let_def)
    with Cons [of "fst (port_step w s)"] show ?case
      by (simp add: split_beta Let_def)
  qed
qed

theorem port_write_callback_witness:
  "snd (port_ddr_w 0 0x0f (constructed\<lparr> m_port_ddr := (\<lambda>_. 0x0f) \<rparr>)) = []
   \<and> snd (port_ddr_w 0 0x0f constructed) = [Port_cb_w 0 0xff 0x0f]
   \<and> snd (port_latch_w 0 0x0f (constructed\<lparr> m_port_ddr := (\<lambda>_. 0xf0) \<rparr>)) = [Port_cb_w 0 0x0f 0xf0]
   \<and> snd (port_latch_w 0 0x0f (constructed\<lparr> m_port_ddr := (\<lambda>_. 0x0f) \<rparr>)) = []"
  using port_write_callback [of 0 "constructed\<lparr> m_port_ddr := (\<lambda>_. 0x0f) \<rparr>" 0 "0x0f" "[]"]
   port_write_callback [of 0 constructed 0 "0x0f" "[]"]
   port_write_callback [of 0 "constructed\<lparr> m_port_ddr := (\<lambda>_. 0xf0) \<rparr>" 0 "0x0f" "[]"]
  by (simp add: constructed_def port_value_def)

text \<open>
  C8 as the claim states it fails on a DDR write that changes no visible bit: on the
  constructed device (latch and input 0xFF, DDR 0) a write of 0xFF to DDRA invokes the
  callback although the visible value of port A is 0xFF before and after.
\<close>

theorem ddr_write_callback_without_change:
  "snd (port_ddr_w 0 0xff constructed) = [Port_cb_w 0 0xff 0xff]
   \<and> port_value 0 (fst (port_ddr_w 0 0xff constructed)) = port_value 0 constructed"
  by (simp add: port_ddr_w_def port_value_def constructed_def Let_def)

section \<open>Reset\<close>

lemma low_byte_fffc: "(65532 :: u8) = 252"
  by simp

lemma start_values_survive_reset:
  "m_tsr (device_reset r (device_start r' s)) = 0
   \<and> m_icr (device_reset r (device_start r' s)) = 0
   \<and> m_ocr (device_reset r (device_start r' s)) = 0
   \<and> m_pcop_cnt (device_reset r (device_start r' s)) = 0
   \<and> m_coprst (device_reset r (device_start r' s)) = 0
   \<and> m_copcr (device_reset r (device_start r' s)) = 0
   \<and> m_port_input (device_reset r (device_start r' s)) = (\<lambda>_. 0xff)
   \<and> m_port_latch (device_reset r (device_start r' s)) = (\<lambda>_. 0xff)"
  by (simp add: device_reset_def device_start_def Let_def)

text \<open>
  C10, as the code has it. A reset hands the inherited members to the reset of the base
  class, zeroes the four data-direction registers, keeps only the edge-polarity bit of the
  control register, zeroes the seen shadow and the prescaler, sets the counter to 0xFFFC,
  clears both inhibit flags, reloads both low-byte latch buffers with 0xFC (the low byte
  of that counter value), clears both latch-pending flags, zeroes the non-programmable
  watchdog counter and keeps only the fired-status bit of the watchdog control register.
  Every other member is unchanged: port inputs, latches and physical bits, the capture
  line state, the status flags, the capture and compare registers, the programmable
  watchdog counter, the arm byte and the enable latch.
\<close>

theorem device_reset_frame:
  "device_reset base_device_reset s =
     s\<lparr> base := base_device_reset (base s),
        m_port_ddr := (\<lambda>_. 0x00),
        m_tcr := m_tcr s AND 0x02,
        m_tsr_seen := 0x00,
        m_prescaler := 0,
        m_counter := 0xfffc,
        m_inhibit_cap := False,
        m_inhibit_cmp := False,
        m_trl_buf := (\<lambda>_. 0xfc),
        m_trl_latched := (\<lambda>_. False),
        m_ncop_cnt := 0,
        m_copcr := m_copcr s AND 0x10 \<rparr>
   \<and> m_port_input (device_reset base_device_reset s) = m_port_input s
   \<and> m_port_latch (device_reset base_device_reset s) = m_port_latch s
   \<and> m_port_bits (device_reset base_device_reset s) = m_port_bits s
   \<and> m_tcap_state (device_reset base_device_reset s) = m_tcap_state s
   \<and> m_tsr (device_reset base_device_reset s) = m_tsr s
   \<and> m_icr (device_reset base_device_reset s) = m_icr s
   \<and> m_ocr (device_reset base_device_reset s) = m_ocr s
   \<and> m_pcop_cnt (device_reset base_device_reset s) = m_pcop_cnt s
   \<and> m_coprst (device_reset base_device_reset s) = m_coprst s
   \<and> m_ncope (device_reset base_device_reset s) = m_ncope s"
  by (simp add: device_reset_def Let_def low_byte_fffc)

text \<open>
  C10 as the claim states it lists the changed members without the latch buffers: a
  buffer holding 0x34 holds 0xFC after the reset.
\<close>

theorem device_reset_reloads_trl_buf:
  "m_trl_buf (constructed\<lparr> m_trl_buf := (\<lambda>_. 0x34) \<rparr>) False = 0x34
   \<and> m_trl_buf (device_reset (\<lambda>b. b) (constructed\<lparr> m_trl_buf := (\<lambda>_. 0x34) \<rparr>)) False = 0xfc
   \<and> m_trl_buf (device_reset (\<lambda>b. b) (constructed\<lparr> m_trl_buf := (\<lambda>_. 0x34) \<rparr>)) False
       \<noteq> m_trl_buf (constructed\<lparr> m_trl_buf := (\<lambda>_. 0x34) \<rparr>) False"
  by (simp add: device_reset_def Let_def)

section \<open>Cycle accounting: the blocks of \<^verbatim>\<open>burn_cycles\<close>\<close>

lemmas burn_defs = burn_cycles_def burn_timer_def run_pcop_def run_ncop_def
  raise_if_enabled_def set_pending_def copcr_pcope_def copcr_cm_def copcr_copf_def tcr_olvl_def
  Let_def split_beta

lemma burn_split:
  "fst (burn_cycles h c s) = fst (run_ncop c (fst (run_pcop c (fst (burn_timer h c s)))))"
  "snd (burn_cycles h c s) = snd (burn_timer h c s) @ snd (run_pcop c (fst (burn_timer h c s)))
      @ snd (run_ncop c (fst (run_pcop c (fst (burn_timer h c s)))))"
  by (simp_all add: burn_cycles_def split_beta)

lemma unat_ucast_16_32: "unat (ucast (w :: u16) :: u32) = unat w"
proof -
  have "unat w < 2 ^ 16" using unsigned_less [of w, where ?'a = nat] by simp
  then have "unat w < 2 ^ 32" by simp
  then show ?thesis by (simp add: unsigned_ucast_eq take_bit_nat_eq_self)
qed

lemma unat_ucast_8_32: "unat (ucast (w :: u8) :: u32) = unat w"
proof -
  have "unat w < 2 ^ 8" using unsigned_less [of w, where ?'a = nat] by simp
  then have "unat w < 2 ^ 32" by simp
  then show ?thesis by (simp add: unsigned_ucast_eq take_bit_nat_eq_self)
qed

lemma unat_and_15: "unat (x AND (15 :: u32)) = unat x mod 16"
proof -
  have e: "x AND (15 :: u32) = take_bit 4 x"
    by (simp add: take_bit_eq_mask mask_eq_exp_minus_1)
  have "unat (take_bit 4 x) = take_bit 4 (unat x)"
    by (rule unsigned_take_bit_eq)
  also have "\<dots> = unat x mod 16"
    by (simp add: take_bit_eq_mod)
  finally show ?thesis by (simp only: e)
qed

lemma unat_drop_4: "unat (drop_bit 4 (x :: u32)) = unat x div 16"
proof -
  have "unat (drop_bit 4 x) = drop_bit 4 (unat x)"
    by (rule unat_drop_bit_eq)
  also have "\<dots> = unat x div 16"
    by (simp add: drop_bit_eq_div)
  finally show ?thesis .
qed

lemma unat_ucast_32_16: "unat (ucast (x :: u32) :: u16) = unat x mod 65536"
  by (simp add: unsigned_ucast_eq take_bit_eq_mod)

lemma unat_ucast_32_8: "unat (ucast (x :: u32) :: u8) = unat x mod 256"
  by (simp add: unsigned_ucast_eq take_bit_eq_mod)

lemma unat_add_32: "unat (a + b :: u32) = (unat a + unat b) mod 4294967296"
  by (simp add: unat_word_ariths)

lemma ucast_counter_less: "(ucast (w :: u16) :: u32) < 0x10000"
proof -
  have "unat w < 2 ^ 16" using unsigned_less [of w, where ?'a = nat] by simp
  then show ?thesis by (simp add: word_less_nat_alt unat_ucast_16_32)
qed

lemma raise_if_enabled_frame:
  "raise_if_enabled h s = s\<lparr> base := base (raise_if_enabled h s) \<rparr>"
  by (simp add: raise_if_enabled_def set_pending_def)

lemma raise_if_enabled_fields [simp]:
  "m_tsr (raise_if_enabled h s) = m_tsr s"
  "m_tcr (raise_if_enabled h s) = m_tcr s"
  "m_counter (raise_if_enabled h s) = m_counter s"
  "m_prescaler (raise_if_enabled h s) = m_prescaler s"
  "m_copcr (raise_if_enabled h s) = m_copcr s"
  "m_pcop_cnt (raise_if_enabled h s) = m_pcop_cnt s"
  "m_ncop_cnt (raise_if_enabled h s) = m_ncop_cnt s"
  by (simp_all add: raise_if_enabled_def set_pending_def)

lemma timer_counter:
  "m_counter (fst (burn_timer h c s)) = ucast ((ucast (m_counter s) :: u32) + drop_bit 4 (c + (ucast (m_prescaler s) AND 15)))"
  by (simp add: burn_timer_def Let_def split_beta)

lemma timer_prescaler:
  "m_prescaler (fst (burn_timer h c s)) = ucast ((c + ucast (m_prescaler s)) AND 15)"
  by (simp add: burn_timer_def Let_def split_beta)

lemma timer_tsr:
  "m_tsr (fst (burn_timer h c s)) =
     (let new_counter = (ucast (m_counter s) :: u32) + drop_bit 4 (c + (ucast (m_prescaler s) AND 15));
          t1 = (if 0x10000 \<le> new_counter then m_tsr s OR 0x20 else m_tsr s)
      in if m_ocr s > m_counter s \<and> ucast (m_ocr s) \<le> new_counter \<and> \<not> m_inhibit_cmp s
         then t1 OR 0x40 else t1)"
  by (simp add: burn_timer_def Let_def split_beta ucast_counter_less)

lemma timer_frame [simp]:
  "m_copcr (fst (burn_timer h c s)) = m_copcr s"
  "m_pcop_cnt (fst (burn_timer h c s)) = m_pcop_cnt s"
  "m_ncop_cnt (fst (burn_timer h c s)) = m_ncop_cnt s"
  "m_tcr (fst (burn_timer h c s)) = m_tcr s"
  by (simp_all add: burn_timer_def Let_def split_beta)

lemma pcop_frame [simp]:
  "m_ncop_cnt (fst (run_pcop c s)) = m_ncop_cnt s"
  "m_tsr (fst (run_pcop c s)) = m_tsr s"
  "m_tcr (fst (run_pcop c s)) = m_tcr s"
  "m_counter (fst (run_pcop c s)) = m_counter s"
  "m_prescaler (fst (run_pcop c s)) = m_prescaler s"
  "base (fst (run_pcop c s)) = base s"
  by (simp_all add: run_pcop_def Let_def split_beta)

lemma ncop_frame [simp]:
  "m_copcr (fst (run_ncop c s)) = m_copcr s"
  "m_pcop_cnt (fst (run_ncop c s)) = m_pcop_cnt s"
  "m_tsr (fst (run_ncop c s)) = m_tsr s"
  "m_tcr (fst (run_ncop c s)) = m_tcr s"
  "m_counter (fst (run_ncop c s)) = m_counter s"
  "m_prescaler (fst (run_ncop c s)) = m_prescaler s"
  "base (fst (run_ncop c s)) = base s"
  by (simp_all add: run_ncop_def Let_def split_beta)

lemma pcop_cnt: "m_pcop_cnt (fst (run_pcop c s)) = (m_pcop_cnt s + c) AND 0x1fffff"
  by (simp add: run_pcop_def Let_def split_beta)

lemma ncop_cnt: "m_ncop_cnt (fst (run_ncop c s)) = (m_ncop_cnt s + c) AND 0x1ffff"
  by (simp add: run_ncop_def Let_def split_beta)

lemma pcop_copcr: "m_copcr (fst (run_pcop c s)) = (if pcop_fires c s then m_copcr s OR 0x10 else m_copcr s)"
  by (simp add: run_pcop_def Let_def split_beta pcop_fires_def)

lemma pcop_events: "snd (run_pcop c s) = (if pcop_fires c s then [Reset_pulse] else [])"
  by (simp add: run_pcop_def Let_def split_beta pcop_fires_def)

lemma ncop_events: "snd (run_ncop c s) = (if (0x20000 :: u32) \<le> m_ncop_cnt s + c then [Reset_pulse] else [])"
  by (simp add: run_ncop_def Let_def split_beta)

lemma timer_events: "set (snd (burn_timer h c s)) \<subseteq> {Tcmp_cb (tcr_olvl s)}"
  by (simp add: burn_timer_def Let_def split_beta tcr_olvl_def)

lemma unat_lt_65536: "unat (w :: u16) < 65536"
  using unsigned_less [of w, where ?'a = nat] by simp

lemma unat_lt_256: "unat (w :: u8) < 256"
  using unsigned_less [of w, where ?'a = nat] by simp

lemma unat_sum_small:
  assumes "unat (c :: u32) + 15 < 4294967296"
  shows "unat (c + (ucast (p :: u8) AND 15)) = unat c + unat p mod 16"
proof -
  have "unat p mod 16 < 16" by simp
  with assms have "unat c + unat p mod 16 < 4294967296" by linarith
  then show ?thesis
    by (simp only: unat_add_32 [of c] unat_and_15 unat_ucast_8_32 mod_less)
qed

lemma unat_new_counter:
  assumes "unat (c :: u32) + 15 < 4294967296"
  shows "unat ((ucast (w :: u16) :: u32) + drop_bit 4 (c + (ucast (p :: u8) AND 15)))
           = unat w + (unat c + unat p mod 16) div 16"
proof -
  have "unat p mod 16 < 16" by simp
  with assms have "(unat c + unat p mod 16) div 16 < 268435456" by linarith
  with unat_lt_65536 [of w] have "unat w + (unat c + unat p mod 16) div 16 < 4294967296"
    by linarith
  then show ?thesis
    by (simp add: unat_add_32 [of "ucast w"] unat_drop_4 unat_sum_small [OF assms] unat_ucast_16_32)
qed

lemma unat_new_prescaler:
  "unat (ucast (((c :: u32) + ucast (p :: u8)) AND (15 :: u32)) :: u8) = (unat c + unat p) mod 16"
proof -
  have "unat (ucast ((c + ucast p) AND (15 :: u32)) :: u8) = (unat (c + ucast p) mod 16) mod 256"
    by (simp add: unat_ucast_32_8 unat_and_15)
  also have "\<dots> = unat (c + ucast p :: u32) mod 16"
    by (simp add: mod_mod_cancel)
  also have "\<dots> = ((unat c + unat p) mod 4294967296) mod 16"
    by (simp add: unat_add_32 unat_ucast_8_32)
  also have "\<dots> = (unat c + unat p) mod 16"
    by (simp add: mod_mod_cancel)
  finally show ?thesis .
qed

subsection \<open>Timer arithmetic on naturals\<close>

lemma burn_counter:
  "m_counter (fst (burn_cycles h c s)) = m_counter (fst (burn_timer h c s))"
  "m_prescaler (fst (burn_cycles h c s)) = m_prescaler (fst (burn_timer h c s))"
  "m_tsr (fst (burn_cycles h c s)) = m_tsr (fst (burn_timer h c s))"
  by (simp_all add: burn_split)

lemma counter_step:
  assumes "unat (c :: u32) + 15 < 4294967296"
  shows "unat (m_counter (fst (burn_cycles h c s)))
           = (unat (m_counter s) + (unat c + unat (m_prescaler s) mod 16) div 16) mod 65536"
  by (simp only: burn_counter timer_counter unat_ucast_32_16 unat_new_counter [OF assms])

lemma prescaler_step:
  "unat (m_prescaler (fst (burn_cycles h c s))) = (unat c + unat (m_prescaler s)) mod 16"
  by (simp only: burn_counter timer_prescaler unat_new_prescaler)

lemma mod_16_split:
  fixes x r :: nat
  assumes "r < 16"
  shows "(16 * x + r) mod 1048576 = 16 * (x mod 65536) + r"
proof -
  have "(16 * x + r) mod (16 * 65536) = 16 * ((16 * x + r) div 16 mod 65536) + (16 * x + r) mod 16"
    by (rule mod_mult2_eq)
  moreover have "(16 * x + r) div 16 = x" using assms by simp
  moreover have "(16 * x + r) mod 16 = r" using assms by simp
  ultimately show ?thesis by simp
qed

lemma carry_arith_aux:
  fixes C m k d r :: nat
  assumes "k + m = 16 * d + r" and "r < 16"
  shows "16 * ((C + d) mod 65536) + r = (16 * C + m + k) mod 1048576"
proof -
  have "16 * C + m + k = 16 * (C + d) + r"
    using assms(1) by simp
  then show ?thesis
    by (simp only: mod_16_split [OF assms(2)])
qed

lemma carry_arith:
  fixes C k q :: nat
  shows "16 * ((C + (k + q mod 16) div 16) mod 65536) + (k + q) mod 16
           = (16 * C + q mod 16 + k) mod 1048576"
proof -
  have a: "(k + q) mod 16 = (k + q mod 16) mod 16"
    by (simp add: mod_add_right_eq)
  have b: "k + q mod 16 = 16 * ((k + q mod 16) div 16) + (k + q mod 16) mod 16"
    by simp
  have c: "(k + q mod 16) mod 16 < 16"
    by simp
  show ?thesis
    unfolding a by (rule carry_arith_aux [OF b c])
qed

lemma carry_step:
  assumes "unat (c :: u32) + 15 < 4294967296"
  shows "16 * unat (m_counter (fst (burn_cycles h c s))) + unat (m_prescaler (fst (burn_cycles h c s)))
           = (16 * unat (m_counter s) + unat (m_prescaler s) mod 16 + unat c) mod 1048576"
  by (simp only: counter_step [OF assms] prescaler_step carry_arith)

lemma rollover_iff:
  assumes "unat (c :: u32) + 15 < 4294967296"
  shows "(0x10000 :: u32) \<le> ucast (m_counter s) + drop_bit 4 (c + (ucast (m_prescaler s) AND 15))
          \<longleftrightarrow> 65536 \<le> unat (m_counter s) + (unat c + unat (m_prescaler s) mod 16) div 16"
  by (simp add: word_le_nat_alt unat_new_counter [OF assms])

lemma bit5_or_40: "bit (x OR (0x40 :: u8)) 5 \<longleftrightarrow> bit x 5"
  by (simp add: bit_or_iff bit_40)
lemma bit5_or_20: "bit (x OR (0x20 :: u8)) 5"
  by (simp add: bit_or_iff bit_20)

lemma tof_step:
  assumes "unat (c :: u32) + 15 < 4294967296"
  shows "bit (m_tsr (fst (burn_cycles h c s))) 5
          \<longleftrightarrow> bit (m_tsr s) 5
              \<or> 65536 \<le> unat (m_counter s) + (unat c + unat (m_prescaler s) mod 16) div 16"
  by (simp add: burn_counter timer_tsr Let_def rollover_iff [OF assms] bit5_or_40 bit5_or_20)

subsection \<open>Watchdog arithmetic on naturals\<close>

lemma unat_and_3: "unat (x AND (3 :: u8)) = unat x mod 4"
proof -
  have e: "x AND (3 :: u8) = take_bit 2 x"
    by (simp add: take_bit_eq_mask mask_eq_exp_minus_1)
  have "unat (take_bit 2 x) = take_bit 2 (unat x)"
    by (rule unsigned_take_bit_eq)
  also have "\<dots> = unat x mod 4"
    by (simp add: take_bit_eq_mod)
  finally show ?thesis by (simp only: e)
qed

lemma pcop_bits_eq: "pcop_bits s = 15 + 2 * (unat (m_copcr s) mod 4)"
proof -
  have "unat (push_bit 1 (m_copcr s AND 3)) = (2 * unat (m_copcr s AND 3)) mod 256"
    by (simp add: push_bit_eq_mult unat_word_ariths mult.commute)
  also have "\<dots> = 2 * (unat (m_copcr s) mod 4)"
    by (simp add: unat_and_3)
  finally show ?thesis by (simp add: pcop_bits_def copcr_cm_def)
qed

lemma pcop_bits_le: "pcop_bits s \<le> 21" "15 \<le> pcop_bits s"
  by (simp_all add: pcop_bits_eq)

lemma unat_pow32:
  assumes "n < 32"
  shows "unat (push_bit n 1 :: u32) = 2 ^ n"
proof -
  have "(2::nat) ^ n < 2 ^ 32"
    using assms by (rule power_strict_increasing) simp
  then have self: "take_bit 32 ((2::nat) ^ n) = 2 ^ n"
    by (simp only: take_bit_nat_eq_self)
  have "unat (push_bit n (1::u32)) = take_bit LENGTH(32) (push_bit n (unat (1::u32)))"
    by (rule unsigned_push_bit_eq)
  also have "\<dots> = take_bit 32 ((2::nat) ^ n)"
    by (simp add: push_bit_eq_mult)
  finally show ?thesis by (simp only: self)
qed

lemma unat_low_bits: "unat (x AND (push_bit n 1 - 1) :: u32) = unat x mod 2 ^ n"
proof -
  have e: "x AND (push_bit n 1 - 1 :: u32) = take_bit n x"
    by (simp add: take_bit_eq_mask mask_eq_exp_minus_1)
  have "unat (take_bit n x) = take_bit n (unat x)"
    by (rule unsigned_take_bit_eq)
  also have "\<dots> = unat x mod 2 ^ n"
    by (simp add: take_bit_eq_mod)
  finally show ?thesis by (simp only: e)
qed

lemma pcop_fires_nat:
  assumes "unat (c :: u32) < 2147483648"
  shows "pcop_fires c s \<longleftrightarrow>
           copcr_pcope s \<and> 2 ^ pcop_bits s \<le> unat (m_pcop_cnt s) mod 2 ^ pcop_bits s + unat c"
proof -
  have le: "pcop_bits s \<le> 21" by (rule pcop_bits_le)
  then have lt: "pcop_bits s < 32" by simp
  have "(2::nat) ^ pcop_bits s \<le> 2 ^ 21" using le by (rule power_increasing) simp
  then have p: "(2::nat) ^ pcop_bits s \<le> 2097152" by simp
  have "unat (m_pcop_cnt s) mod 2 ^ pcop_bits s < 2 ^ pcop_bits s" by simp
  with p assms have small: "unat (m_pcop_cnt s) mod 2 ^ pcop_bits s + unat c < 4294967296"
    by linarith
  have "unat ((m_pcop_cnt s AND (push_bit (pcop_bits s) 1 - 1)) + c)
          = unat (m_pcop_cnt s) mod 2 ^ pcop_bits s + unat c"
    using small by (simp only: unat_add_32 unat_low_bits mod_less)
  then show ?thesis
    by (simp only: pcop_fires_def pcop_bits_def [symmetric] word_le_nat_alt unat_pow32 [OF lt])
qed

lemma unat_and_1fffff: "unat (x AND (0x1fffff :: u32)) = unat x mod 2097152"
proof -
  have "(0x1fffff :: u32) = push_bit 21 1 - 1" by simp
  then have "unat (x AND (0x1fffff :: u32)) = unat (x AND (push_bit 21 1 - 1))" by (simp only:)
  also have "\<dots> = unat x mod 2 ^ 21" by (rule unat_low_bits)
  finally show ?thesis by simp
qed

lemma unat_and_1ffff: "unat (x AND (0x1ffff :: u32)) = unat x mod 131072"
proof -
  have "(0x1ffff :: u32) = push_bit 17 1 - 1" by simp
  then have "unat (x AND (0x1ffff :: u32)) = unat (x AND (push_bit 17 1 - 1))" by (simp only:)
  also have "\<dots> = unat x mod 2 ^ 17" by (rule unat_low_bits)
  finally show ?thesis by simp
qed

lemma burn_copcr:
  "m_copcr (fst (burn_cycles h c s)) = (if pcop_fires c s then m_copcr s OR 0x10 else m_copcr s)"
  by (simp add: burn_split pcop_copcr pcop_fires_def copcr_pcope_def copcr_cm_def)

lemma burn_pcop_cnt:
  "unat (m_pcop_cnt (fst (burn_cycles h c s))) = ((unat (m_pcop_cnt s) + unat c) mod 4294967296) mod 2097152"
  by (simp add: burn_split pcop_cnt unat_and_1fffff unat_add_32)

lemma burn_ncop_cnt:
  "unat (m_ncop_cnt (fst (burn_cycles h c s))) = ((unat (m_ncop_cnt s) + unat c) mod 4294967296) mod 131072"
  by (simp add: burn_split ncop_cnt unat_and_1ffff unat_add_32)

lemma burn_reset_pulse:
  "Reset_pulse \<in> set (snd (burn_cycles h c s))
     \<longleftrightarrow> pcop_fires c s \<or> (0x20000 :: u32) \<le> m_ncop_cnt s + c"
proof -
  have "Reset_pulse \<notin> set (snd (burn_timer h c s))"
    using timer_events [of h c s] by auto
  then show ?thesis
    by (simp add: burn_split pcop_events ncop_events pcop_fires_def copcr_pcope_def copcr_cm_def)
qed

lemma ncop_fires_nat:
  assumes "unat (m_ncop_cnt s) + unat (c :: u32) < 4294967296"
  shows "(0x20000 :: u32) \<le> m_ncop_cnt s + c \<longleftrightarrow> 131072 \<le> unat (m_ncop_cnt s) + unat c"
  using assms by (simp add: word_le_nat_alt unat_add_32)

lemma quiet_step:
  assumes p: "unat (c :: u32) + unat (m_pcop_cnt s) < 32768"
    and n: "unat c + unat (m_ncop_cnt s) < 131072"
  shows "m_copcr (fst (burn_cycles h c s)) = m_copcr s
    \<and> Reset_pulse \<notin> set (snd (burn_cycles h c s))
    \<and> unat (m_pcop_cnt (fst (burn_cycles h c s))) = unat (m_pcop_cnt s) + unat c
    \<and> unat (m_ncop_cnt (fst (burn_cycles h c s))) = unat (m_ncop_cnt s) + unat c"
proof -
  from p have c: "unat c < 2147483648" by simp
  have "(2::nat) ^ 15 \<le> 2 ^ pcop_bits s"
    using pcop_bits_le(2) [of s] by (rule power_increasing) simp
  moreover have "unat (m_pcop_cnt s) mod 2 ^ pcop_bits s \<le> unat (m_pcop_cnt s)"
    by simp
  ultimately have "\<not> 2 ^ pcop_bits s \<le> unat (m_pcop_cnt s) mod 2 ^ pcop_bits s + unat c"
    using p by simp
  then have nf: "\<not> pcop_fires c s"
    by (simp add: pcop_fires_nat [OF c])
  from n have "unat (m_ncop_cnt s) + unat c < 4294967296" by simp
  from ncop_fires_nat [OF this] n have nn: "\<not> (0x20000 :: u32) \<le> m_ncop_cnt s + c"
    by simp
  from p have pc: "((unat (m_pcop_cnt s) + unat c) mod 4294967296) mod 2097152 = unat (m_pcop_cnt s) + unat c"
    by simp
  from n have nc: "((unat (m_ncop_cnt s) + unat c) mod 4294967296) mod 131072 = unat (m_ncop_cnt s) + unat c"
    by simp
  show ?thesis
    by (simp add: burn_copcr burn_reset_pulse nf nn burn_pcop_cnt burn_ncop_cnt pc nc)
qed

lemma burn_run_fst_Cons:
  "fst (burn_run h (c # cs) s) = fst (burn_run h cs (fst (burn_cycles h c s)))"
  "snd (burn_run h (c # cs) s) = snd (burn_cycles h c s) @ snd (burn_run h cs (fst (burn_cycles h c s)))"
  by (simp_all add: split_beta)

lemma quiet_run:
  "sum_list (map unat cs) + unat (m_pcop_cnt s) < 32768 \<Longrightarrow>
   sum_list (map unat cs) + unat (m_ncop_cnt s) < 131072 \<Longrightarrow>
   m_copcr (fst (burn_run h cs s)) = m_copcr s
    \<and> Reset_pulse \<notin> set (snd (burn_run h cs s))
    \<and> unat (m_pcop_cnt (fst (burn_run h cs s))) = unat (m_pcop_cnt s) + sum_list (map unat cs)
    \<and> unat (m_ncop_cnt (fst (burn_run h cs s))) = unat (m_ncop_cnt s) + sum_list (map unat cs)"
proof (induction cs arbitrary: s)
  case Nil
  show ?case by simp
next
  case (Cons c cs)
  let ?s1 = "fst (burn_cycles h c s)"
  from Cons.prems have p: "unat c + unat (m_pcop_cnt s) < 32768"
    and n: "unat c + unat (m_ncop_cnt s) < 131072" by simp_all
  note step = quiet_step [OF p n, of h]
  from Cons.prems step have "sum_list (map unat cs) + unat (m_pcop_cnt ?s1) < 32768"
    and "sum_list (map unat cs) + unat (m_ncop_cnt ?s1) < 131072" by simp_all
  from Cons.IH [OF this] step show ?case
    by (simp add: burn_run_fst_Cons del: burn_run.simps)
qed

lemma bit4_or_10: "bit (x OR (0x10 :: u8)) 4"
proof -
  have "bit (0x10 :: u8) 4" using bit_pow_u8 [of 4 4] by simp
  then show ?thesis by (simp add: bit_or_iff)
qed

lemma fire_step:
  assumes "copcr_pcope s" and "copcr_cm s = 0" and "unat (m_pcop_cnt s) = 32767"
  shows "m_copcr (fst (burn_cycles h 1 s)) = m_copcr s OR 0x10
    \<and> copcr_copf (fst (burn_cycles h 1 s))
    \<and> Reset_pulse \<in> set (snd (burn_cycles h 1 s))"
proof -
  have b: "pcop_bits s = 15" using assms(2) by (simp add: pcop_bits_def)
  have "pcop_fires 1 s"
    using assms(1,3) by (simp add: pcop_fires_nat b)
  then show ?thesis
    by (simp add: burn_copcr burn_reset_pulse copcr_copf_def bit4_or_10)
qed

lemma coprst_clear_fields:
  "m_pcop_cnt (coprst_ws [0x55, 0xaa] s) = take_bit 15 (m_pcop_cnt s)"
  "m_copcr (coprst_ws [0x55, 0xaa] s) = m_copcr s"
  by (simp_all add: coprst_w_def and_7fff)

lemma clear_no_effect_cm0:
  assumes "copcr_cm s = 0"
  shows "pcop_fires c (coprst_ws [0x55, 0xaa] s) \<longleftrightarrow> pcop_fires c s"
proof -
  let ?s' = "coprst_ws [0x55, 0xaa] s"
  have cm: "copcr_cm ?s' = 0" and en: "copcr_pcope ?s' = copcr_pcope s"
    using assms by (simp_all add: copcr_cm_def copcr_pcope_def coprst_w_def)
  have low: "m_pcop_cnt ?s' AND 0x7fff = m_pcop_cnt s AND 0x7fff"
    by (simp add: coprst_w_def and_7fff)
  have "pcop_fires c ?s' \<longleftrightarrow> copcr_pcope s \<and> (0x8000 :: u32) \<le> (m_pcop_cnt ?s' AND 0x7fff) + c"
    unfolding pcop_fires_def cm en by simp
  also have "\<dots> \<longleftrightarrow> copcr_pcope s \<and> (0x8000 :: u32) \<le> (m_pcop_cnt s AND 0x7fff) + c"
    by (simp only: low)
  also have "\<dots> \<longleftrightarrow> pcop_fires c s"
    unfolding pcop_fires_def assms by simp
  finally show ?thesis .
qed

section \<open>Free-running counter\<close>

lemma carry_run:
  "unat (m_prescaler s) < 16 \<Longrightarrow> \<forall>c\<in>set cs. unat c + 15 < 4294967296 \<Longrightarrow>
   16 * unat (m_counter (fst (burn_run h cs s))) + unat (m_prescaler (fst (burn_run h cs s)))
     = (16 * unat (m_counter s) + unat (m_prescaler s) + sum_list (map unat cs)) mod 1048576"
proof (induction cs arbitrary: s)
  case Nil
  have "16 * unat (m_counter s) + unat (m_prescaler s) < 1048576"
    using unat_lt_65536 [of "m_counter s"] Nil.prems(1) by linarith
  then show ?case by simp
next
  case (Cons c cs)
  let ?s1 = "fst (burn_cycles h c s)"
  from Cons.prems have c: "unat c + 15 < 4294967296" by simp
  have p1: "unat (m_prescaler ?s1) < 16"
    by (simp add: prescaler_step)
  from Cons.prems have rest: "\<forall>c\<in>set cs. unat c + 15 < 4294967296" by simp
  have q: "unat (m_prescaler s) mod 16 = unat (m_prescaler s)"
    using Cons.prems(1) by simp
  have "16 * unat (m_counter (fst (burn_run h cs ?s1))) + unat (m_prescaler (fst (burn_run h cs ?s1)))
     = (16 * unat (m_counter ?s1) + unat (m_prescaler ?s1) + sum_list (map unat cs)) mod 1048576"
    by (rule Cons.IH [OF p1 rest])
  also have "\<dots> = ((16 * unat (m_counter s) + unat (m_prescaler s) + unat c) mod 1048576
                      + sum_list (map unat cs)) mod 1048576"
    by (simp only: carry_step [OF c] q)
  also have "\<dots> = (16 * unat (m_counter s) + unat (m_prescaler s) + sum_list (map unat (c # cs))) mod 1048576"
    by (simp add: mod_add_left_eq add.assoc)
  finally show ?case
    by (simp only: burn_run_fst_Cons)
qed

lemma four_cycles_no_tick:
  assumes "m_counter s = 0xfffe" and "m_prescaler s = 0"
  shows "m_counter (fst (burn_cycles h 4 s)) = 0xfffe
     \<and> m_prescaler (fst (burn_cycles h 4 s)) = 4
     \<and> m_tsr (fst (burn_cycles h 4 s)) = m_tsr s"
proof -
  have nc: "\<not> ((0xfffe :: u16) < m_ocr s \<and> (ucast (m_ocr s) :: u32) \<le> 0xfffe)"
    by (simp add: word_less_nat_alt word_le_nat_alt unat_ucast_16_32)
  show ?thesis
    using nc by (auto simp add: burn_counter timer_counter timer_prescaler timer_tsr assms Let_def)
qed

lemma four_ticks_wrap:
  assumes "m_counter s = 0xfffe" and "m_prescaler s = 0"
  shows "m_counter (fst (burn_cycles h 64 s)) = 0x0002
     \<and> bit (m_tsr (fst (burn_cycles h 64 s))) 5"
  by (simp add: burn_counter timer_counter timer_tsr assms Let_def bit5_or_40 bit5_or_20)

text \<open>
  What the timer block computes. While the count cannot overflow 32 bits, one accounting call
  advances the counter by one for every 16 cycles accumulated in the prescaler: 16 times
  the counter plus the prescaler grows by exactly the count, modulo 2^20, and the same
  holds over any run of calls, the remainder below 16 being carried from call to call.
  The overflow flag is set by a call exactly when the counter passes 0x10000 in it (and
  is never cleared by a call). With the counter at 0xFFFE and the prescaler at zero,
  accounting 4 cycles produces no tick: the counter stays 0xFFFE, the prescaler holds 4
  and the status register is untouched; accounting 64 cycles produces four ticks, the
  counter becomes 0x0002 and the overflow flag is set.
\<close>

lemma counter_divides_by_16:
  "(unat c + 15 < 4294967296 \<longrightarrow>
      unat (m_counter (fst (burn_cycles h c s)))
        = (unat (m_counter s) + (unat c + unat (m_prescaler s) mod 16) div 16) mod 65536
    \<and> unat (m_prescaler (fst (burn_cycles h c s))) = (unat c + unat (m_prescaler s)) mod 16
    \<and> 16 * unat (m_counter (fst (burn_cycles h c s))) + unat (m_prescaler (fst (burn_cycles h c s)))
        = (16 * unat (m_counter s) + unat (m_prescaler s) mod 16 + unat c) mod 1048576
    \<and> (bit (m_tsr (fst (burn_cycles h c s))) 5
         \<longleftrightarrow> bit (m_tsr s) 5
             \<or> 65536 \<le> unat (m_counter s) + (unat c + unat (m_prescaler s) mod 16) div 16))
   \<and> (unat (m_prescaler s) < 16 \<and> (\<forall>c\<in>set cs. unat c + 15 < 4294967296) \<longrightarrow>
        16 * unat (m_counter (fst (burn_run h cs s))) + unat (m_prescaler (fst (burn_run h cs s)))
          = (16 * unat (m_counter s) + unat (m_prescaler s) + sum_list (map unat cs)) mod 1048576)
   \<and> (m_counter s = 0xfffe \<and> m_prescaler s = 0 \<longrightarrow>
        m_counter (fst (burn_cycles h 4 s)) = 0xfffe
        \<and> m_prescaler (fst (burn_cycles h 4 s)) = 4
        \<and> m_tsr (fst (burn_cycles h 4 s)) = m_tsr s
        \<and> m_counter (fst (burn_cycles h 64 s)) = 0x0002
        \<and> bit (m_tsr (fst (burn_cycles h 64 s))) 5)"
proof (intro conjI impI)
  assume c: "unat c + 15 < 4294967296"
  show "unat (m_counter (fst (burn_cycles h c s)))
        = (unat (m_counter s) + (unat c + unat (m_prescaler s) mod 16) div 16) mod 65536"
    by (rule counter_step [OF c])
  show "unat (m_prescaler (fst (burn_cycles h c s))) = (unat c + unat (m_prescaler s)) mod 16"
    by (rule prescaler_step)
  show "16 * unat (m_counter (fst (burn_cycles h c s))) + unat (m_prescaler (fst (burn_cycles h c s)))
        = (16 * unat (m_counter s) + unat (m_prescaler s) mod 16 + unat c) mod 1048576"
    by (rule carry_step [OF c])
  show "bit (m_tsr (fst (burn_cycles h c s))) 5
         \<longleftrightarrow> bit (m_tsr s) 5
             \<or> 65536 \<le> unat (m_counter s) + (unat c + unat (m_prescaler s) mod 16) div 16"
    by (rule tof_step [OF c])
next
  assume "unat (m_prescaler s) < 16 \<and> (\<forall>c\<in>set cs. unat c + 15 < 4294967296)"
  then show "16 * unat (m_counter (fst (burn_run h cs s))) + unat (m_prescaler (fst (burn_run h cs s)))
          = (16 * unat (m_counter s) + unat (m_prescaler s) + sum_list (map unat cs)) mod 1048576"
    using carry_run [of s cs h] by blast
next
  assume a: "m_counter s = 0xfffe \<and> m_prescaler s = 0"
  then have a1: "m_counter s = 0xfffe" and a2: "m_prescaler s = 0" by simp_all
  from four_cycles_no_tick [OF a1 a2, of h]
  show "m_counter (fst (burn_cycles h 4 s)) = 0xfffe"
    and "m_prescaler (fst (burn_cycles h 4 s)) = 4"
    and "m_tsr (fst (burn_cycles h 4 s)) = m_tsr s" by simp_all
  from four_ticks_wrap [OF a1 a2, of h]
  show "m_counter (fst (burn_cycles h 64 s)) = 0x0002"
    and "bit (m_tsr (fst (burn_cycles h 64 s))) 5" by simp_all
qed

lemma counter_divides_by_16_example:
  "m_counter (fst (burn_cycles mame_hdr 4 (constructed\<lparr> m_counter := 0xfffe \<rparr>))) = 0xfffe
   \<and> m_tsr (fst (burn_cycles mame_hdr 4 (constructed\<lparr> m_counter := 0xfffe \<rparr>))) = 0
   \<and> unat (m_counter (fst (burn_cycles mame_hdr 40 (constructed\<lparr> m_counter := 0xfffe \<rparr>)))) = 0
   \<and> unat (m_prescaler (fst (burn_cycles mame_hdr 40 (constructed\<lparr> m_counter := 0xfffe \<rparr>)))) = 8
   \<and> 16 * unat (m_counter (fst (burn_run mame_hdr [7, 9, 20] (constructed\<lparr> m_counter := 0xfffe \<rparr>))))
       + unat (m_prescaler (fst (burn_run mame_hdr [7, 9, 20] (constructed\<lparr> m_counter := 0xfffe \<rparr>)))) = 4"
proof -
  let ?s = "constructed\<lparr> m_counter := 0xfffe \<rparr>"
  have f: "m_counter ?s = 0xfffe \<and> m_prescaler ?s = 0" "m_tsr ?s = 0"
    "unat (m_prescaler ?s) < 16 \<and> (\<forall>c\<in>set [7, 9, 20 :: u32]. unat c + 15 < 4294967296)"
    "unat (40 :: u32) + 15 < 4294967296"
    by (simp_all add: constructed_def)
  from counter_divides_by_16 [of 40 mame_hdr ?s "[7, 9, 20]"] f
  show ?thesis
    by simp
qed


section \<open>Programmable watchdog: firing\<close>

text \<open>
  C4, as the code has it. With N = 15 + 2 CM, an accounting call of fewer than 2^31
  cycles latches COPF, and pulses reset, exactly when PCOPE is set and the low N bits of
  the counter plus the count reach 2^N (a reset pulse can also come from the
  non-programmable watchdog, excluded here by keeping its counter below 2^17). The
  0x55/0xAA sequence leaves the low 15 bits of the counter alone, so with timeout field 0
  it changes nothing about the firing. With timeout field 0, from a counter of zero, any
  run of calls accounting 2^15 - 1 cycles in all latches nothing and pulses nothing, and
  one more cycle latches COPF and pulses reset.
\<close>

theorem pcop_fires_iff:
  "pcop_bits s = 15 + 2 * (unat (m_copcr s) mod 4)
   \<and> (unat c < 2147483648 \<longrightarrow>
        m_copcr (fst (burn_cycles h c s))
          = (if copcr_pcope s \<and> 2 ^ pcop_bits s \<le> unat (m_pcop_cnt s) mod 2 ^ pcop_bits s + unat c
             then m_copcr s OR 0x10 else m_copcr s))
   \<and> (unat c < 2147483648 \<and> unat (m_ncop_cnt s) + unat c < 131072 \<longrightarrow>
        (Reset_pulse \<in> set (snd (burn_cycles h c s))
          \<longleftrightarrow> copcr_pcope s \<and> 2 ^ pcop_bits s \<le> unat (m_pcop_cnt s) mod 2 ^ pcop_bits s + unat c))
   \<and> (copcr_cm s = 0 \<longrightarrow>
        m_copcr (fst (burn_cycles h c (coprst_ws [0x55, 0xaa] s))) = m_copcr (fst (burn_cycles h c s))
        \<and> (Reset_pulse \<in> set (snd (burn_cycles h c (coprst_ws [0x55, 0xaa] s)))
             \<longleftrightarrow> Reset_pulse \<in> set (snd (burn_cycles h c s))))
   \<and> (copcr_pcope s \<and> copcr_cm s = 0 \<and> m_pcop_cnt s = 0 \<and> m_ncop_cnt s = 0
        \<and> sum_list (map unat cs) = 2 ^ 15 - 1 \<longrightarrow>
        m_copcr (fst (burn_run h cs s)) = m_copcr s
        \<and> Reset_pulse \<notin> set (snd (burn_run h cs s))
        \<and> m_copcr (fst (burn_cycles h 1 (fst (burn_run h cs s)))) = m_copcr s OR 0x10
        \<and> copcr_copf (fst (burn_cycles h 1 (fst (burn_run h cs s))))
        \<and> Reset_pulse \<in> set (snd (burn_cycles h 1 (fst (burn_run h cs s)))))"
proof (intro conjI impI)
  show "pcop_bits s = 15 + 2 * (unat (m_copcr s) mod 4)"
    by (rule pcop_bits_eq)
next
  assume "unat c < 2147483648"
  then show "m_copcr (fst (burn_cycles h c s))
          = (if copcr_pcope s \<and> 2 ^ pcop_bits s \<le> unat (m_pcop_cnt s) mod 2 ^ pcop_bits s + unat c
             then m_copcr s OR 0x10 else m_copcr s)"
    by (simp add: burn_copcr pcop_fires_nat)
next
  assume a: "unat c < 2147483648 \<and> unat (m_ncop_cnt s) + unat c < 131072"
  then have "\<not> (0x20000 :: u32) \<le> m_ncop_cnt s + c"
    by (simp add: ncop_fires_nat)
  with a show "Reset_pulse \<in> set (snd (burn_cycles h c s))
          \<longleftrightarrow> copcr_pcope s \<and> 2 ^ pcop_bits s \<le> unat (m_pcop_cnt s) mod 2 ^ pcop_bits s + unat c"
    by (simp add: burn_reset_pulse pcop_fires_nat)
next
  assume "copcr_cm s = 0"
  then show "m_copcr (fst (burn_cycles h c (coprst_ws [0x55, 0xaa] s))) = m_copcr (fst (burn_cycles h c s))"
    by (simp only: burn_copcr clear_no_effect_cm0 coprst_clear_fields)
next
  assume z: "copcr_cm s = 0"
  have "m_ncop_cnt (coprst_ws [0x55, 0xaa] s) = m_ncop_cnt s"
    by (simp add: coprst_w_def)
  with z show "Reset_pulse \<in> set (snd (burn_cycles h c (coprst_ws [0x55, 0xaa] s)))
             \<longleftrightarrow> Reset_pulse \<in> set (snd (burn_cycles h c s))"
    by (simp only: burn_reset_pulse clear_no_effect_cm0)
next
  assume a: "copcr_pcope s \<and> copcr_cm s = 0 \<and> m_pcop_cnt s = 0 \<and> m_ncop_cnt s = 0
        \<and> sum_list (map unat cs) = 2 ^ 15 - 1"
  then have "sum_list (map unat cs) + unat (m_pcop_cnt s) < 32768"
    and "sum_list (map unat cs) + unat (m_ncop_cnt s) < 131072" by simp_all
  note q = quiet_run [OF this, of h]
  let ?s1 = "fst (burn_run h cs s)"
  from q a have "copcr_pcope ?s1" and "copcr_cm ?s1 = 0" and "unat (m_pcop_cnt ?s1) = 32767"
    by (simp_all add: copcr_pcope_def copcr_cm_def)
  note f = fire_step [OF this, of h]
  from q show "m_copcr ?s1 = m_copcr s" by simp
  from q show "Reset_pulse \<notin> set (snd (burn_run h cs s))" by simp
  from f q show "m_copcr (fst (burn_cycles h 1 ?s1)) = m_copcr s OR 0x10" by simp
  from f show "copcr_copf (fst (burn_cycles h 1 ?s1))" by simp
  from f show "Reset_pulse \<in> set (snd (burn_cycles h 1 ?s1))" by simp
qed

theorem pcop_fires_iff_witness:
  "m_copcr (fst (burn_cycles mame_hdr 0x7fff (constructed\<lparr> m_copcr := 0x04 \<rparr>))) = 0x04
   \<and> m_copcr (fst (burn_run mame_hdr [0x7000, 0x0fff] (constructed\<lparr> m_copcr := 0x04 \<rparr>))) = 0x04
   \<and> Reset_pulse \<notin> set (snd (burn_run mame_hdr [0x7000, 0x0fff] (constructed\<lparr> m_copcr := 0x04 \<rparr>)))
   \<and> m_copcr (fst (burn_cycles mame_hdr 1
          (fst (burn_run mame_hdr [0x7000, 0x0fff] (constructed\<lparr> m_copcr := 0x04 \<rparr>))))) = 0x14
   \<and> Reset_pulse \<in> set (snd (burn_cycles mame_hdr 1
          (fst (burn_run mame_hdr [0x7000, 0x0fff] (constructed\<lparr> m_copcr := 0x04 \<rparr>)))))"
proof -
  let ?s = "constructed\<lparr> m_copcr := 0x04 \<rparr>"
  have pre: "copcr_pcope ?s \<and> copcr_cm ?s = 0 \<and> m_pcop_cnt ?s = 0 \<and> m_ncop_cnt ?s = 0
        \<and> sum_list (map unat [0x7000, 0x0fff :: u32]) = 2 ^ 15 - 1"
    by (simp add: copcr_pcope_def copcr_cm_def constructed_def)
  have bits: "pcop_bits ?s = 15"
    by (simp add: pcop_bits_def copcr_cm_def)
  have one: "unat (0x7fff :: u32) < 2147483648" by simp
  from pcop_fires_iff [of ?s "0x7fff" mame_hdr "[0x7000, 0x0fff]"] pre bits one
  show ?thesis
    by (simp add: constructed_def)
qed

text \<open>
  C4 as the claim states it fails on a clear sequence with timeout field 0: 2^14 cycles,
  then 0x55 and 0xAA (accepted: the arm byte holds 0xAA), then 2^14 cycles. The watchdog
  fires in the last call, although the clear sequence came between and only 2^14 cycles
  followed it.
\<close>

theorem pcop_fires_despite_clear:
  "m_coprst (coprst_ws [0x55, 0xaa]
       (fst (burn_cycles mame_hdr 0x4000 (constructed\<lparr> m_copcr := 0x04 \<rparr>)))) = 0xaa
   \<and> snd (burn_cycles mame_hdr 0x4000 (constructed\<lparr> m_copcr := 0x04 \<rparr>)) = []
   \<and> m_copcr (fst (burn_cycles mame_hdr 0x4000
       (coprst_ws [0x55, 0xaa]
         (fst (burn_cycles mame_hdr 0x4000 (constructed\<lparr> m_copcr := 0x04 \<rparr>)))))) = 0x14
   \<and> snd (burn_cycles mame_hdr 0x4000
       (coprst_ws [0x55, 0xaa]
         (fst (burn_cycles mame_hdr 0x4000 (constructed\<lparr> m_copcr := 0x04 \<rparr>))))) = [Reset_pulse]"
  by (simp add: burn_defs coprst_w_def constructed_def)

section \<open>Interrupt entry\<close>

lemma burn_base:
  "base (fst (burn_cycles h c s)) = (base s)\<lparr> m_pending_interrupts := pending (fst (burn_cycles h c s)) \<rparr>"
  by (simp add: burn_split burn_timer_def Let_def split_beta raise_if_enabled_def set_pending_def)

lemma burn_pending:
  "pending (fst (burn_cycles h c s))
     = (if m_tcr s AND m_tsr (fst (burn_cycles h c s)) AND 0xe0 \<noteq> 0
        then pending s OR tcap_bit h else pending s)"
  by (simp add: burn_split burn_timer_def Let_def split_beta raise_if_enabled_def set_pending_def)

lemma interrupt_not_serviced:
  "\<not> (pending s AND M68HC05_INT_MASK h \<noteq> 0 \<and> m_cc (base s) AND IFLAG h = 0)
    \<Longrightarrow> interrupt h rm16 s = Inr (s, [])"
  by (auto simp add: interrupt_def)

lemma interrupt_timer:
  "pending s AND M68HC05_INT_MASK h \<noteq> 0 \<Longrightarrow> m_cc (base s) AND IFLAG h = 0 \<Longrightarrow>
   bit (pending s) (M68HC05_TCAP_LINE h) \<Longrightarrow>
   interrupt h rm16 s = Inr (fst (burn_cycles h 10 (pushed s h rm16)),
                             Irq_callback # snd (burn_cycles h 10 (pushed s h rm16)))"
  by (simp add: interrupt_def pushed_def pushword_def pushbyte_def SEI_def Let_def split_beta)

lemma interrupt_fatal:
  "pending s AND M68HC05_INT_MASK h \<noteq> 0 \<Longrightarrow> m_cc (base s) AND IFLAG h = 0 \<Longrightarrow>
   \<not> bit (pending s) (M68HC05_TCAP_LINE h) \<Longrightarrow>
   interrupt h rm16 s = Inl (Fatal ''Unknown pending interrupt'',
      s\<lparr> base := (base s)\<lparr>
       stack := Byte (m_cc (base s)) # Byte (m_a (base s)) # Byte (m_x (base s))
                  # Word16 (m_pc (base s)) # stack (base s),
       m_cc := m_cc (base s) OR IFLAG h \<rparr> \<rparr>)"
  by (simp add: interrupt_def pushword_def pushbyte_def SEI_def Let_def split_beta)

lemma pushed_fields [simp]:
  "m_counter (pushed s h rm16) = m_counter s"
  "m_prescaler (pushed s h rm16) = m_prescaler s"
  "m_pcop_cnt (pushed s h rm16) = m_pcop_cnt s"
  "m_ncop_cnt (pushed s h rm16) = m_ncop_cnt s"
  "pending (pushed s h rm16) = pending s"
  by (simp_all add: pushed_def)

lemma or_and_same: "(x OR f) AND f = (f :: u8)"
  by (auto simp: bit_eq_iff bit_and_iff bit_or_iff)

lemma both_pending_fields:
  "pending both_pending = 0x03" "m_cc (base both_pending) = 0" "m_tsr both_pending = 0x20" "m_tcr both_pending = 0x20"
  by (simp_all add: both_pending_def execute_set_input_def tcr_w_def burn_defs constructed_def mame_hdr_def tcap_bit_def)

text \<open>
  C6, as the code has it. The poll services an interrupt only when a pending bit within
  the interrupt mask is set and the mask flag is clear; otherwise it changes nothing. On
  service it pushes PC, X, A and CC in that order, sets the mask flag and calls the
  acknowledge callback. If the timer bit is pending it loads PC from the timer vector
  0xFFF8, charges 10 cycles and accounts them to the timer and both watchdogs; the mask
  flag it has set keeps the next poll from servicing anything. If the timer bit is not
  pending, whatever else is (the external line included), it throws the fatal error,
  the pushes already made. No external-interrupt vector is ever taken.
\<close>

theorem interrupt_service:
  "(\<not> (pending s AND M68HC05_INT_MASK h \<noteq> 0 \<and> m_cc (base s) AND IFLAG h = 0)
      \<longrightarrow> interrupt h rm16 s = Inr (s, []))
   \<and> (pending s AND M68HC05_INT_MASK h \<noteq> 0 \<and> m_cc (base s) AND IFLAG h = 0
        \<and> bit (pending s) (M68HC05_TCAP_LINE h) \<longrightarrow>
        interrupt h rm16 s = Inr (fst (burn_cycles h 10 (pushed s h rm16)),
                                  Irq_callback # snd (burn_cycles h 10 (pushed s h rm16)))
        \<and> stack (base (fst (burn_cycles h 10 (pushed s h rm16))))
            = Byte (m_cc (base s)) # Byte (m_a (base s)) # Byte (m_x (base s))
                # Word16 (m_pc (base s)) # stack (base s)
        \<and> m_cc (base (fst (burn_cycles h 10 (pushed s h rm16)))) = m_cc (base s) OR IFLAG h
        \<and> m_pc (base (fst (burn_cycles h 10 (pushed s h rm16)))) = rm16 0xfff8
        \<and> m_icount (base (fst (burn_cycles h 10 (pushed s h rm16)))) = m_icount (base s) - 10
        \<and> 16 * unat (m_counter (fst (burn_cycles h 10 (pushed s h rm16))))
             + unat (m_prescaler (fst (burn_cycles h 10 (pushed s h rm16))))
            = (16 * unat (m_counter s) + unat (m_prescaler s) mod 16 + 10) mod 1048576
        \<and> unat (m_pcop_cnt (fst (burn_cycles h 10 (pushed s h rm16))))
            = ((unat (m_pcop_cnt s) + 10) mod 4294967296) mod 2097152
        \<and> unat (m_ncop_cnt (fst (burn_cycles h 10 (pushed s h rm16))))
            = ((unat (m_ncop_cnt s) + 10) mod 4294967296) mod 131072
        \<and> (IFLAG h \<noteq> 0 \<longrightarrow>
              interrupt h rm16 (fst (burn_cycles h 10 (pushed s h rm16)))
                = Inr (fst (burn_cycles h 10 (pushed s h rm16)), [])))
   \<and> (pending s AND M68HC05_INT_MASK h \<noteq> 0 \<and> m_cc (base s) AND IFLAG h = 0
        \<and> \<not> bit (pending s) (M68HC05_TCAP_LINE h) \<longrightarrow>
        (\<exists>s'. interrupt h rm16 s = Inl (Fatal ''Unknown pending interrupt'', s')
           \<and> stack (base s') = Byte (m_cc (base s)) # Byte (m_a (base s)) # Byte (m_x (base s))
                # Word16 (m_pc (base s)) # stack (base s)))"
proof (intro conjI impI)
  assume "\<not> (pending s AND M68HC05_INT_MASK h \<noteq> 0 \<and> m_cc (base s) AND IFLAG h = 0)"
  then show "interrupt h rm16 s = Inr (s, [])"
    by (rule interrupt_not_serviced)
next
  assume a: "pending s AND M68HC05_INT_MASK h \<noteq> 0 \<and> m_cc (base s) AND IFLAG h = 0
        \<and> bit (pending s) (M68HC05_TCAP_LINE h)"
  let ?s' = "fst (burn_cycles h 10 (pushed s h rm16))"
  from a show "interrupt h rm16 s = Inr (?s', Irq_callback # snd (burn_cycles h 10 (pushed s h rm16)))"
    by (simp add: interrupt_timer)
  have b: "base ?s' = (base (pushed s h rm16))\<lparr> m_pending_interrupts := pending ?s' \<rparr>"
    by (rule burn_base)
  show "stack (base ?s') = Byte (m_cc (base s)) # Byte (m_a (base s)) # Byte (m_x (base s))
                # Word16 (m_pc (base s)) # stack (base s)"
    by (subst b) (simp add: pushed_def)
  show cc: "m_cc (base ?s') = m_cc (base s) OR IFLAG h"
    by (subst b) (simp add: pushed_def)
  show "m_pc (base ?s') = rm16 0xfff8"
    by (subst b) (simp add: pushed_def M68HC05_VECTOR_TIMER_def)
  show "m_icount (base ?s') = m_icount (base s) - 10"
    by (subst b) (simp add: pushed_def)
  have ten: "unat (10 :: u32) + 15 < 4294967296" by simp
  from carry_step [OF ten, of h "pushed s h rm16"]
  show "16 * unat (m_counter ?s') + unat (m_prescaler ?s')
            = (16 * unat (m_counter s) + unat (m_prescaler s) mod 16 + 10) mod 1048576"
    by simp
  from burn_pcop_cnt [of h 10 "pushed s h rm16"]
  show "unat (m_pcop_cnt ?s') = ((unat (m_pcop_cnt s) + 10) mod 4294967296) mod 2097152"
    by simp
  from burn_ncop_cnt [of h 10 "pushed s h rm16"]
  show "unat (m_ncop_cnt ?s') = ((unat (m_ncop_cnt s) + 10) mod 4294967296) mod 131072"
    by simp
  assume "IFLAG h \<noteq> 0"
  then have "\<not> (pending ?s' AND M68HC05_INT_MASK h \<noteq> 0 \<and> m_cc (base ?s') AND IFLAG h = 0)"
    by (simp add: cc or_and_same)
  then show "interrupt h rm16 ?s' = Inr (?s', [])"
    by (rule interrupt_not_serviced)
next
  assume "pending s AND M68HC05_INT_MASK h \<noteq> 0 \<and> m_cc (base s) AND IFLAG h = 0
        \<and> \<not> bit (pending s) (M68HC05_TCAP_LINE h)"
  then show "\<exists>s'. interrupt h rm16 s = Inl (Fatal ''Unknown pending interrupt'', s')
           \<and> stack (base s') = Byte (m_cc (base s)) # Byte (m_a (base s)) # Byte (m_x (base s))
                # Word16 (m_pc (base s)) # stack (base s)"
    by (simp add: interrupt_fatal)
qed

theorem interrupt_service_witness:
  "interrupt mame_hdr vectors constructed = Inr (constructed, [])
   \<and> m_pc (base (fst (burn_cycles mame_hdr 10 (pushed both_pending mame_hdr vectors)))) = 0x1234
   \<and> stack (base (fst (burn_cycles mame_hdr 10 (pushed both_pending mame_hdr vectors))))
       = [Byte 0, Byte 0, Byte 0, Word16 0]
   \<and> isl (interrupt mame_hdr vectors (execute_set_input mame_hdr 0 1 constructed))"
proof -
  have idle: "\<not> (pending constructed AND M68HC05_INT_MASK mame_hdr \<noteq> 0
      \<and> m_cc (base constructed) AND IFLAG mame_hdr = 0)"
    by (simp add: constructed_def)
  have timer: "pending both_pending AND M68HC05_INT_MASK mame_hdr \<noteq> 0
      \<and> m_cc (base both_pending) AND IFLAG mame_hdr = 0
      \<and> bit (pending both_pending) (M68HC05_TCAP_LINE mame_hdr)"
    by (simp add: both_pending_fields mame_hdr_def)
  have regs: "m_x (base both_pending) = 0" "m_a (base both_pending) = 0"
    "m_pc (base both_pending) = 0" "stack (base both_pending) = []"
    by (simp_all add: both_pending_def execute_set_input_def tcr_w_def burn_defs constructed_def
        mame_hdr_def tcap_bit_def)
  have ext: "pending (execute_set_input mame_hdr 0 1 constructed) AND M68HC05_INT_MASK mame_hdr \<noteq> 0
      \<and> m_cc (base (execute_set_input mame_hdr 0 1 constructed)) AND IFLAG mame_hdr = 0
      \<and> \<not> bit (pending (execute_set_input mame_hdr 0 1 constructed)) (M68HC05_TCAP_LINE mame_hdr)"
    by (simp add: execute_set_input_def set_pending_def constructed_def mame_hdr_def)
  from interrupt_service [of constructed mame_hdr vectors] idle
  have 1: "interrupt mame_hdr vectors constructed = Inr (constructed, [])" by blast
  from interrupt_service [of both_pending mame_hdr vectors] timer
  have 2: "m_pc (base (fst (burn_cycles mame_hdr 10 (pushed both_pending mame_hdr vectors)))) = 0x1234"
    and 3: "stack (base (fst (burn_cycles mame_hdr 10 (pushed both_pending mame_hdr vectors))))
       = [Byte 0, Byte 0, Byte 0, Word16 0]"
    by (simp_all add: vectors_def both_pending_fields regs)
  from interrupt_service [of "execute_set_input mame_hdr 0 1 constructed" mame_hdr vectors] ext
  have 4: "isl (interrupt mame_hdr vectors (execute_set_input mame_hdr 0 1 constructed))"
    by auto
  from 1 2 3 4 show ?thesis by simp
qed

text \<open>
  C6 as the claim states it gives the external line priority over the timer. With both
  pending the poll takes the timer vector 0xFFF8, not 0xFFFA; with the external line
  alone pending it throws.
\<close>

theorem external_line_not_vectored:
  "pending both_pending = 0x03
   \<and> m_pc (base (fst (projr (interrupt mame_hdr vectors both_pending)))) = vectors 0xfff8
   \<and> m_pc (base (fst (projr (interrupt mame_hdr vectors both_pending)))) \<noteq> vectors 0xfffa
   \<and> pending (execute_set_input mame_hdr 0 1 constructed) = 0x01
   \<and> isl (interrupt mame_hdr vectors (execute_set_input mame_hdr 0 1 constructed))"
proof -
  have timer: "pending both_pending AND M68HC05_INT_MASK mame_hdr \<noteq> 0"
      "m_cc (base both_pending) AND IFLAG mame_hdr = 0"
      "bit (pending both_pending) (M68HC05_TCAP_LINE mame_hdr)"
    by (simp_all add: both_pending_fields mame_hdr_def)
  have b: "base (fst (burn_cycles mame_hdr 10 (pushed both_pending mame_hdr vectors)))
      = (base (pushed both_pending mame_hdr vectors))\<lparr> m_pending_interrupts :=
           pending (fst (burn_cycles mame_hdr 10 (pushed both_pending mame_hdr vectors))) \<rparr>"
    by (rule burn_base)
  have pc: "m_pc (base (fst (projr (interrupt mame_hdr vectors both_pending)))) = 0x1234"
    by (simp add: interrupt_timer [OF timer]) (subst b, simp add: pushed_def vectors_def M68HC05_VECTOR_TIMER_def)
  have ext: "pending (execute_set_input mame_hdr 0 1 constructed) = 0x01"
    by (simp add: execute_set_input_def set_pending_def constructed_def mame_hdr_def)
  have ext2: "pending (execute_set_input mame_hdr 0 1 constructed) AND M68HC05_INT_MASK mame_hdr \<noteq> 0"
      "m_cc (base (execute_set_input mame_hdr 0 1 constructed)) AND IFLAG mame_hdr = 0"
      "\<not> bit (pending (execute_set_input mame_hdr 0 1 constructed)) (M68HC05_TCAP_LINE mame_hdr)"
    by (simp_all add: execute_set_input_def set_pending_def constructed_def mame_hdr_def)
  show ?thesis
    by (simp add: pc ext both_pending_fields vectors_def interrupt_fatal [OF ext2])
qed

section \<open>Pending interrupts\<close>

lemma bit_line: "bit (push_bit m 1 :: u16) n \<longleftrightarrow> n = m \<and> m < 16"
  by (auto simp add: bit_exp_iff)

lemma bit_tcap: "bit (tcap_bit h) n \<longleftrightarrow> n = M68HC05_TCAP_LINE h \<and> M68HC05_TCAP_LINE h < 16"
  unfolding tcap_bit_def by (rule bit_line)

lemma bit_or_tcap: "bit (p OR tcap_bit h) n \<longleftrightarrow> bit p n \<or> (n = M68HC05_TCAP_LINE h \<and> n < 16)"
  by (auto simp add: bit_or_iff bit_tcap)

lemma bit_clear_tcap: "bit (p AND NOT (tcap_bit h)) n \<longleftrightarrow> bit p n \<and> n \<noteq> M68HC05_TCAP_LINE h"
  by (auto simp add: bit_and_iff bit_not_iff bit_tcap dest: bit_imp_le_length)

lemma enabled_mono: "a AND b AND m \<noteq> 0 \<Longrightarrow> a AND (b OR x) AND m \<noteq> (0 :: u8)"
  by (auto simp add: bit_eq_iff bit_and_iff bit_or_iff)

lemma inv_clear_if_idle: "tcap_inv h (clear_if_idle h s)"
  by (simp add: tcap_inv_def timer_enabled_def clear_if_idle_def set_pending_def bit_clear_tcap)

lemma inv_raise_if_enabled: "tcap_inv h s \<Longrightarrow> tcap_inv h (raise_if_enabled h s)"
  by (auto simp add: tcap_inv_def timer_enabled_def raise_if_enabled_def set_pending_def)

lemma inv_tcr_w: "tcap_inv h (tcr_w h d s)"
  by (simp add: tcap_inv_def timer_enabled_def tcr_w_def Let_def set_pending_def bit_clear_tcap)

lemma inv_frame:
  "pending s' = pending s \<Longrightarrow> m_tcr s' = m_tcr s \<Longrightarrow> m_tsr s' = m_tsr s \<Longrightarrow>
   tcap_inv h s \<Longrightarrow> tcap_inv h s'"
  by (simp add: tcap_inv_def timer_enabled_def)

lemma inv_icr_r: "tcap_inv h s \<Longrightarrow> tcap_inv h (snd (icr_r h dbg off s))"
proof -
  assume i: "tcap_inv h s"
  have c: "tcap_inv h (clear_if_idle h (s\<lparr> m_tsr := m_tsr s AND 0x7f, m_tsr_seen := m_tsr_seen s AND 0x7f \<rparr>)\<lparr> m_inhibit_cap := False \<rparr>)"
    by (rule inv_frame [OF _ _ _ inv_clear_if_idle]) simp_all
  from i c show ?thesis
    by (auto simp add: icr_r_def Let_def intro: inv_frame [of _ s])
qed

lemma inv_ocr_r: "tcap_inv h s \<Longrightarrow> tcap_inv h (snd (ocr_r h dbg off s))"
  by (simp add: ocr_r_def Let_def inv_clear_if_idle)

lemma inv_ocr_w: "tcap_inv h s \<Longrightarrow> tcap_inv h (ocr_w h dbg off d s)"
proof -
  assume i: "tcap_inv h s"
  let ?c = "clear_if_idle h (s\<lparr> m_tsr := m_tsr s AND 0xbf, m_tsr_seen := m_tsr_seen s AND 0xbf \<rparr>)"
  have c: "tcap_inv h (?c\<lparr> m_inhibit_cmp := False, m_ocr := v \<rparr>)" for v
    by (rule inv_frame [OF _ _ _ inv_clear_if_idle]) simp_all
  have f: "tcap_inv h (s\<lparr> m_inhibit_cmp := b, m_ocr := v \<rparr>)" "tcap_inv h (s\<lparr> m_ocr := v \<rparr>)" for b v
    by (rule inv_frame [OF _ _ _ i], simp_all)+
  show ?thesis
    by (simp add: ocr_w_def Let_def c f)
qed

lemma inv_timer_r: "tcap_inv h s \<Longrightarrow> tcap_inv h (snd (timer_r h dbg off s))"
proof -
  assume i: "tcap_inv h s"
  have f: "tcap_inv h (s\<lparr> m_trl_latched := l \<rparr>)"
    "tcap_inv h (s\<lparr> m_trl_latched := l, m_trl_buf := b \<rparr>)" for l b
    by (rule inv_frame [OF _ _ _ i], simp_all)+
  show ?thesis
    by (simp add: timer_r_def Let_def inv_clear_if_idle f i)
qed

lemma inv_tsr_r: "tcap_inv h s \<Longrightarrow> tcap_inv h (snd (tsr_r dbg s))"
  by (auto simp add: tsr_r_def intro: inv_frame [of _ s])

lemma inv_execute_set_input: "tcap_inv h s \<Longrightarrow> tcap_inv h (execute_set_input h n st s)"
proof -
  assume i: "tcap_inv h s"
  have cap: "tcap_inv h ((raise_if_enabled h (s\<lparr> m_tsr := m_tsr s OR 0x80, m_icr := m_counter s \<rparr>))\<lparr> m_tcap_state := b \<rparr>)" for b
  proof (rule inv_frame [OF _ _ _ inv_raise_if_enabled])
    show "tcap_inv h (s\<lparr> m_tsr := m_tsr s OR 0x80, m_icr := m_counter s \<rparr>)"
      using i by (auto simp add: tcap_inv_def timer_enabled_def dest: enabled_mono)
  qed (simp_all add: raise_if_enabled_def set_pending_def)
  have f: "tcap_inv h (s\<lparr> m_tcap_state := b \<rparr>)" for b
    by (rule inv_frame [OF _ _ _ i]) simp_all
  have line: "tcap_inv h (set_pending (pending s OR 2 ^ n) (s\<lparr> base := (base s)\<lparr> m_irq_state := q \<rparr> \<rparr>))"
    if "n \<noteq> M68HC05_TCAP_LINE h" for q
    using i that by (auto simp add: tcap_inv_def timer_enabled_def set_pending_def bit_or_iff bit_exp_iff)
  have st: "tcap_inv h (s\<lparr> base := (base s)\<lparr> m_irq_state := q \<rparr> \<rparr>)" for q
    by (rule inv_frame [OF _ _ _ i]) simp_all
  show ?thesis
  proof (cases "n = M68HC05_TCAP_LINE h")
    case True
    then show ?thesis
      by (simp add: execute_set_input_def Let_def cap f)
  next
    case False
    then show ?thesis
      by (simp add: execute_set_input_def Let_def line st i)
  qed
qed

lemma burn_tcr_tsr:
  "m_tcr (fst (burn_cycles h c s)) = m_tcr s"
  "\<exists>x. m_tsr (fst (burn_cycles h c s)) = m_tsr s OR x"
proof -
  show "m_tcr (fst (burn_cycles h c s)) = m_tcr s"
    by (simp add: burn_split)
  have "m_tsr (fst (burn_cycles h c s)) = m_tsr s
      \<or> m_tsr (fst (burn_cycles h c s)) = m_tsr s OR 0x20
      \<or> m_tsr (fst (burn_cycles h c s)) = m_tsr s OR 0x40
      \<or> m_tsr (fst (burn_cycles h c s)) = m_tsr s OR (0x20 OR 0x40)"
    by (simp add: burn_counter timer_tsr Let_def or.assoc)
  then show "\<exists>x. m_tsr (fst (burn_cycles h c s)) = m_tsr s OR x"
    by (metis or.right_neutral)
qed

lemma inv_burn_cycles: "tcap_inv h s \<Longrightarrow> tcap_inv h (fst (burn_cycles h c s))"
proof -
  assume i: "tcap_inv h s"
  obtain x where x: "m_tsr (fst (burn_cycles h c s)) = m_tsr s OR x"
    using burn_tcr_tsr(2) by blast
  show ?thesis
    using i enabled_mono [of "m_tcr s" "m_tsr s" "0xe0" x]
    by (auto simp add: tcap_inv_def timer_enabled_def burn_pending burn_tcr_tsr(1) x bit_or_tcap)
qed

lemma inv_interrupt:
  "tcap_inv h s \<Longrightarrow> tcap_inv h (perform h dbg (Interrupt rm16) s)"
proof -
  assume i: "tcap_inv h s"
  have p: "tcap_inv h (pushed s h rm16)"
    by (rule inv_frame [OF _ _ _ i]) (simp_all add: pushed_def)
  have f: "tcap_inv h (s\<lparr> base := (base s)\<lparr> stack := k, m_cc := c \<rparr> \<rparr>)" for k c
    by (rule inv_frame [OF _ _ _ i]) simp_all
  consider (idle) "\<not> (pending s AND M68HC05_INT_MASK h \<noteq> 0 \<and> m_cc (base s) AND IFLAG h = 0)"
    | (timer) "pending s AND M68HC05_INT_MASK h \<noteq> 0" "m_cc (base s) AND IFLAG h = 0"
        "bit (pending s) (M68HC05_TCAP_LINE h)"
    | (fatal) "pending s AND M68HC05_INT_MASK h \<noteq> 0" "m_cc (base s) AND IFLAG h = 0"
        "\<not> bit (pending s) (M68HC05_TCAP_LINE h)"
    by blast
  then show ?thesis
  proof cases
    case idle
    then show ?thesis by (simp add: interrupt_not_serviced i)
  next
    case timer
    then show ?thesis by (simp add: interrupt_timer inv_burn_cycles [OF p])
  next
    case fatal
    then show ?thesis by (simp add: interrupt_fatal f)
  qed
qed

lemma inv_perform: "tcap_inv h s \<Longrightarrow> tcap_inv h (perform h dbg op s)"
proof (cases op)
  case (Interrupt rm16)
  assume "tcap_inv h s"
  then show ?thesis unfolding Interrupt by (rule inv_interrupt)
next
  case (Port_r cb off)
  assume i: "tcap_inv h s"
  show ?thesis unfolding Port_r
    by (rule inv_frame [OF _ _ _ i]) (simp_all add: port_r_def Let_def split: option.split)
next
  case (Port_latch_w off d)
  assume i: "tcap_inv h s"
  show ?thesis unfolding Port_latch_w
    by (rule inv_frame [OF _ _ _ i]) (simp_all add: port_latch_w_def Let_def)
next
  case (Port_ddr_w off d)
  assume i: "tcap_inv h s"
  show ?thesis unfolding Port_ddr_w
    by (rule inv_frame [OF _ _ _ i]) (simp_all add: port_ddr_w_def Let_def)
next
  case (Coprst_w d)
  assume i: "tcap_inv h s"
  show ?thesis unfolding Coprst_w
    by (rule inv_frame [OF _ _ _ i]) (simp_all add: coprst_w_def Let_def)
next
  case Copcr_r
  assume i: "tcap_inv h s"
  show ?thesis unfolding Copcr_r
    by (rule inv_frame [OF _ _ _ i]) (simp_all add: copcr_r_def Let_def)
next
  case (Copcr_w d)
  assume i: "tcap_inv h s"
  show ?thesis unfolding Copcr_w
    by (rule inv_frame [OF _ _ _ i]) (simp_all add: copcr_w_def)
next
  case (Copr_w d)
  assume i: "tcap_inv h s"
  show ?thesis unfolding Copr_w
    by (rule inv_frame [OF _ _ _ i]) (simp_all add: copr_w_def)
qed (simp_all add: inv_tcr_w inv_tsr_r inv_icr_r inv_ocr_r inv_ocr_w inv_timer_r
      inv_execute_set_input inv_burn_cycles)

lemma kept_clear_if_idle:
  "n \<noteq> M68HC05_TCAP_LINE h \<Longrightarrow> bit (pending (clear_if_idle h s)) n \<longleftrightarrow> bit (pending s) n"
  by (simp add: clear_if_idle_def set_pending_def bit_clear_tcap)

lemma kept_raise_if_enabled:
  "bit (pending s) n \<Longrightarrow> bit (pending (raise_if_enabled h s)) n"
  by (simp add: raise_if_enabled_def set_pending_def bit_or_iff)

lemma kept_burn_cycles:
  "bit (pending s) n \<Longrightarrow> bit (pending (fst (burn_cycles h c s))) n"
  by (simp add: burn_pending bit_or_iff)

lemma kept_interrupt:
  "bit (pending s) n \<Longrightarrow> bit (pending (perform h dbg (Interrupt rm16) s)) n"
proof -
  assume b: "bit (pending s) n"
  consider (idle) "\<not> (pending s AND M68HC05_INT_MASK h \<noteq> 0 \<and> m_cc (base s) AND IFLAG h = 0)"
    | (timer) "pending s AND M68HC05_INT_MASK h \<noteq> 0" "m_cc (base s) AND IFLAG h = 0"
        "bit (pending s) (M68HC05_TCAP_LINE h)"
    | (fatal) "pending s AND M68HC05_INT_MASK h \<noteq> 0" "m_cc (base s) AND IFLAG h = 0"
        "\<not> bit (pending s) (M68HC05_TCAP_LINE h)"
    by blast
  then show ?thesis
  proof cases
    case idle
    then show ?thesis by (simp add: interrupt_not_serviced b)
  next
    case timer
    have "bit (pending (pushed s h rm16)) n" using b by simp
    then have "bit (pending (fst (burn_cycles h 10 (pushed s h rm16)))) n"
      by (rule kept_burn_cycles)
    with timer show ?thesis by (simp add: interrupt_timer)
  next
    case fatal
    then show ?thesis by (simp add: interrupt_fatal b)
  qed
qed

lemma kept_perform:
  assumes n: "n \<noteq> M68HC05_TCAP_LINE h" and b: "bit (pending s) n"
  shows "bit (pending (perform h dbg op s)) n"
proof (cases op)
  case (Interrupt rm16)
  show ?thesis unfolding Interrupt using b by (rule kept_interrupt)
next
  case (Burn_cycles c)
  show ?thesis unfolding Burn_cycles using b by (simp add: kept_burn_cycles)
next
  case (Port_r cb off)
  show ?thesis unfolding Port_r using b
    by (simp add: port_r_def Let_def split: option.split)
next
  case (Tcr_w d)
  show ?thesis unfolding Tcr_w using b n
    by (simp add: tcr_w_def Let_def set_pending_def bit_clear_tcap bit_or_iff)
next
  case (Icr_r off)
  show ?thesis unfolding Icr_r using b n
    by (simp add: icr_r_def Let_def kept_clear_if_idle)
next
  case (Ocr_r off)
  show ?thesis unfolding Ocr_r using b n
    by (simp add: ocr_r_def Let_def kept_clear_if_idle)
next
  case (Ocr_w off d)
  show ?thesis unfolding Ocr_w using b n
    by (simp add: ocr_w_def Let_def kept_clear_if_idle)
next
  case (Timer_r off)
  show ?thesis unfolding Timer_r using b n
    by (simp add: timer_r_def Let_def kept_clear_if_idle)
next
  case (Set_input m st)
  show ?thesis unfolding Set_input using b n
    by (simp add: execute_set_input_def Let_def set_pending_def bit_or_iff kept_raise_if_enabled)
qed (use b in \<open>simp_all add: port_latch_w_def port_ddr_w_def tsr_r_def coprst_w_def copcr_r_def
      copcr_w_def copr_w_def Let_def\<close>)

lemma line_sets_bit:
  "n \<noteq> M68HC05_TCAP_LINE h \<Longrightarrow> n < 16 \<Longrightarrow> st \<noteq> CLEAR_LINE h \<Longrightarrow>
   m_irq_state (base s) n \<noteq> st \<Longrightarrow> bit (pending (execute_set_input h n st s)) n"
  by (simp add: execute_set_input_def Let_def set_pending_def bit_or_iff bit_exp_iff)

lemma tcr_w_pending:
  "bit (pending (tcr_w h d s)) (M68HC05_TCAP_LINE h)
     \<longleftrightarrow> M68HC05_TCAP_LINE h < 16 \<and> timer_enabled (tcr_w h d s)"
  by (auto simp add: tcr_w_def Let_def set_pending_def timer_enabled_def bit_clear_tcap bit_or_tcap
      dest: bit_imp_le_length)

lemma both_pending_inv: "tcap_inv mame_hdr both_pending"
  by (simp add: tcap_inv_def timer_enabled_def both_pending_fields)




section \<open>Timer status flags: cleared only through their own register\<close>

lemma bit_or_kept: "bit (w :: u8) n \<Longrightarrow> bit (w OR x) n"
  by (simp add: bit_or_iff)

lemma tsr_kept_burn: "bit (m_tsr s) n \<Longrightarrow> bit (m_tsr (fst (burn_cycles h c s))) n"
  using burn_tcr_tsr(2) [of h c s] by (auto simp add: bit_or_iff)

lemma tsr_kept_set_input: "bit (m_tsr s) n \<Longrightarrow> bit (m_tsr (execute_set_input h m st s)) n"
  by (simp add: execute_set_input_def Let_def set_pending_def bit_or_iff)

lemma tsr_kept_interrupt:
  "bit (m_tsr s) n \<Longrightarrow> bit (m_tsr (perform h dbg (Interrupt rm16) s)) n"
proof -
  assume b: "bit (m_tsr s) n"
  consider (idle) "\<not> (pending s AND M68HC05_INT_MASK h \<noteq> 0 \<and> m_cc (base s) AND IFLAG h = 0)"
    | (timer) "pending s AND M68HC05_INT_MASK h \<noteq> 0" "m_cc (base s) AND IFLAG h = 0"
        "bit (pending s) (M68HC05_TCAP_LINE h)"
    | (fatal) "pending s AND M68HC05_INT_MASK h \<noteq> 0" "m_cc (base s) AND IFLAG h = 0"
        "\<not> bit (pending s) (M68HC05_TCAP_LINE h)"
    by blast
  then show ?thesis
  proof cases
    case idle
    then show ?thesis by (simp add: interrupt_not_serviced b)
  next
    case timer
    have "bit (m_tsr (pushed s h rm16)) n" using b by (simp add: pushed_def)
    then have "bit (m_tsr (fst (burn_cycles h 10 (pushed s h rm16)))) n"
      by (rule tsr_kept_burn)
    with timer show ?thesis by (simp add: interrupt_timer)
  next
    case fatal
    then show ?thesis by (simp add: interrupt_fatal b)
  qed
qed

lemma tsr_debugger: 
  "m_tsr (snd (icr_r h True off s)) = m_tsr s"
  "m_tsr (snd (ocr_r h True off s)) = m_tsr s"
  "m_tsr (ocr_w h True off d s) = m_tsr s"
  "m_tsr (snd (timer_r h True off s)) = m_tsr s"
  by (simp_all add: icr_r_def ocr_r_def ocr_w_def timer_r_def Let_def)

lemma tsr_untouched:
  "m_tsr (snd (port_r cb dbg off s)) = m_tsr s"
  "m_tsr (fst (port_latch_w off d s)) = m_tsr s"
  "m_tsr (fst (port_ddr_w off d s)) = m_tsr s"
  "m_tsr (tcr_w h d s) = m_tsr s"
  "m_tsr (snd (tsr_r dbg s)) = m_tsr s"
  "m_tsr (coprst_w d s) = m_tsr s"
  "m_tsr (snd (copcr_r dbg s)) = m_tsr s"
  "m_tsr (copcr_w d s) = m_tsr s"
  "m_tsr (copr_w d s) = m_tsr s"
  by (simp_all add: port_r_def port_latch_w_def port_ddr_w_def tcr_w_def tsr_r_def coprst_w_def
      copcr_r_def copcr_w_def copr_w_def set_pending_def Let_def split: option.split)

lemma flag_cleared_only_by_its_register:
  assumes b: "bit (m_tsr s) n" and c: "\<not> bit (m_tsr (perform h dbg op s)) n"
  shows "\<not> dbg \<and>
     ((n = 7 \<and> bit (m_tsr_seen s) 7 \<and> (\<exists>off. odd off \<and> op = Icr_r off))
    \<or> (n = 6 \<and> bit (m_tsr_seen s) 6 \<and> (\<exists>off. odd off \<and> (op = Ocr_r off \<or> (\<exists>d. op = Ocr_w off d))))
    \<or> (n = 5 \<and> bit (m_tsr_seen s) 5 \<and> (\<exists>off. odd off \<and> \<not> bit off 1 \<and> op = Timer_r off)))"
proof (cases op)
  case (Icr_r off)
  show ?thesis
  proof (cases dbg)
    case True
    with b c Icr_r show ?thesis by (simp add: tsr_debugger)
  next
    case False
    with b c Icr_r show ?thesis
      by (auto simp add: icr_r_tsr bit_and_7f split: if_splits)
  qed
next
  case (Ocr_r off)
  show ?thesis
  proof (cases dbg)
    case True
    with b c Ocr_r show ?thesis by (simp add: tsr_debugger)
  next
    case False
    with b c Ocr_r show ?thesis
      by (auto simp add: ocr_r_tsr bit_and_bf split: if_splits)
  qed
next
  case (Ocr_w off d)
  show ?thesis
  proof (cases dbg)
    case True
    with b c Ocr_w show ?thesis by (simp add: tsr_debugger)
  next
    case False
    with b c Ocr_w show ?thesis
      by (auto simp add: ocr_w_tsr bit_and_bf split: if_splits)
  qed
next
  case (Timer_r off)
  show ?thesis
  proof (cases dbg)
    case True
    with b c Timer_r show ?thesis by (simp add: tsr_debugger)
  next
    case False
    with b c Timer_r show ?thesis
      by (auto simp add: timer_r_tsr bit_and_df split: if_splits)
  qed
next
  case (Interrupt rm16)
  with b c tsr_kept_interrupt [of s n h dbg rm16] show ?thesis by simp
next
  case (Burn_cycles k)
  with b c tsr_kept_burn [of s n h k] show ?thesis by simp
next
  case (Set_input m st)
  with b c tsr_kept_set_input [of s n h m st] show ?thesis by simp
qed (use b c in \<open>simp_all add: tsr_untouched\<close>)

lemma icr_r_seen:
  "m_tsr_seen (snd (icr_r h False off s))
     = (if odd off \<and> bit (m_tsr_seen s) 7 then m_tsr_seen s AND 0x7f else m_tsr_seen s)"
  by (simp add: icr_r_def Let_def bit_0 clear_if_idle_def set_pending_def)

lemma ocr_r_seen:
  "m_tsr_seen (snd (ocr_r h False off s))
     = (if odd off \<and> bit (m_tsr_seen s) 6 then m_tsr_seen s AND 0xbf else m_tsr_seen s)"
  by (simp add: ocr_r_def Let_def bit_0 clear_if_idle_def set_pending_def)

lemma ocr_w_seen:
  "m_tsr_seen (ocr_w h False off d s)
     = (if odd off \<and> bit (m_tsr_seen s) 6 then m_tsr_seen s AND 0xbf else m_tsr_seen s)"
  by (simp add: ocr_w_def Let_def bit_0 clear_if_idle_def set_pending_def)

lemma timer_r_seen:
  "m_tsr_seen (snd (timer_r h False off s))
     = (if odd off \<and> \<not> bit off 1 \<and> bit (m_tsr_seen s) 5 then m_tsr_seen s AND 0xdf
        else m_tsr_seen s)"
  by (simp add: timer_r_def Let_def bit_0 clear_if_idle_def set_pending_def)

lemma seen_debugger:
  "m_tsr_seen (snd (tsr_r True s)) = m_tsr_seen s"
  "m_tsr_seen (snd (icr_r h True off s)) = m_tsr_seen s"
  "m_tsr_seen (snd (ocr_r h True off s)) = m_tsr_seen s"
  "m_tsr_seen (ocr_w h True off d s) = m_tsr_seen s"
  "m_tsr_seen (snd (timer_r h True off s)) = m_tsr_seen s"
  by (simp_all add: tsr_r_def icr_r_def ocr_r_def ocr_w_def timer_r_def Let_def)

lemma icr_r_seen_bit:
  "bit (m_tsr_seen (snd (icr_r h False off s))) n
     \<longleftrightarrow> bit (m_tsr_seen s) n \<and> \<not> (n = 7 \<and> odd off)"
  by (auto simp add: icr_r_seen bit_and_7f)

lemma ocr_r_seen_bit:
  "bit (m_tsr_seen (snd (ocr_r h False off s))) n
     \<longleftrightarrow> bit (m_tsr_seen s) n \<and> \<not> (n = 6 \<and> odd off)"
  by (auto simp add: ocr_r_seen bit_and_bf)

lemma ocr_w_seen_bit:
  "bit (m_tsr_seen (ocr_w h False off d s)) n
     \<longleftrightarrow> bit (m_tsr_seen s) n \<and> \<not> (n = 6 \<and> odd off)"
  by (auto simp add: ocr_w_seen bit_and_bf)

lemma timer_r_seen_bit:
  "bit (m_tsr_seen (snd (timer_r h False off s))) n
     \<longleftrightarrow> bit (m_tsr_seen s) n \<and> \<not> (n = 5 \<and> odd off \<and> \<not> bit off 1)"
  by (auto simp add: timer_r_seen bit_and_df)

lemma seen_untouched:
  "m_tsr_seen (snd (port_r cb dbg off s)) = m_tsr_seen s"
  "m_tsr_seen (fst (port_latch_w off d s)) = m_tsr_seen s"
  "m_tsr_seen (fst (port_ddr_w off d s)) = m_tsr_seen s"
  "m_tsr_seen (tcr_w h d s) = m_tsr_seen s"
  "m_tsr_seen (coprst_w d s) = m_tsr_seen s"
  "m_tsr_seen (snd (copcr_r dbg s)) = m_tsr_seen s"
  "m_tsr_seen (copcr_w d s) = m_tsr_seen s"
  "m_tsr_seen (copr_w d s) = m_tsr_seen s"
  "m_tsr_seen (execute_set_input h m st s) = m_tsr_seen s"
  "m_tsr_seen (fst (burn_cycles h c s)) = m_tsr_seen s"
  by (simp_all add: port_r_def port_latch_w_def port_ddr_w_def tcr_w_def coprst_w_def
      copcr_r_def copcr_w_def copr_w_def execute_set_input_def set_pending_def
      raise_if_enabled_def burn_defs split: option.split)

lemma seen_untouched_interrupt:
  "m_tsr_seen (perform h dbg (Interrupt rm16) s) = m_tsr_seen s"
proof -
  consider (idle) "\<not> (pending s AND M68HC05_INT_MASK h \<noteq> 0 \<and> m_cc (base s) AND IFLAG h = 0)"
    | (timer) "pending s AND M68HC05_INT_MASK h \<noteq> 0" "m_cc (base s) AND IFLAG h = 0"
        "bit (pending s) (M68HC05_TCAP_LINE h)"
    | (fatal) "pending s AND M68HC05_INT_MASK h \<noteq> 0" "m_cc (base s) AND IFLAG h = 0"
        "\<not> bit (pending s) (M68HC05_TCAP_LINE h)"
    by blast
  then show ?thesis
  proof cases
    case idle
    then show ?thesis by (simp add: interrupt_not_serviced)
  next
    case timer
    then show ?thesis by (simp add: interrupt_timer seen_untouched(10) pushed_def)
  next
    case fatal
    then show ?thesis by (simp add: interrupt_fatal)
  qed
qed

lemma seen_bit_acquired:
  assumes a: "bit (m_tsr_seen (perform h dbg op s)) n" and b: "\<not> bit (m_tsr_seen s) n"
  shows "op = Tsr_r \<and> \<not> dbg"
proof (cases op)
  case (Icr_r off)
  with a b show ?thesis by (cases dbg) (simp_all add: seen_debugger icr_r_seen_bit)
next
  case (Ocr_r off)
  with a b show ?thesis by (cases dbg) (simp_all add: seen_debugger ocr_r_seen_bit)
next
  case (Ocr_w off d)
  with a b show ?thesis by (cases dbg) (simp_all add: seen_debugger ocr_w_seen_bit)
next
  case (Timer_r off)
  with a b show ?thesis by (cases dbg) (simp_all add: seen_debugger timer_r_seen_bit)
next
  case Tsr_r
  with a b show ?thesis by (cases dbg) (simp_all add: seen_debugger)
next
  case (Interrupt rm16)
  with a b seen_untouched_interrupt [of h dbg rm16 s] show ?thesis by simp
qed (use a b in \<open>simp_all add: seen_untouched\<close>)

lemma flags_safe_without_status_read:
  "no_status_read ops \<Longrightarrow> \<not> bit (m_tsr_seen s) n \<Longrightarrow>
   \<not> bit (m_tsr_seen (perform_all h ops s)) n
   \<and> (bit (m_tsr s) n \<longrightarrow> bit (m_tsr (perform_all h ops s)) n)"
proof (induction ops arbitrary: s)
  case Nil
  then show ?case by simp
next
  case (Cons x ops)
  obtain dbg op where x: "x = (dbg, op)" by (cases x)
  from Cons.prems(1) x have ok: "dbg \<or> op \<noteq> Tsr_r" and rest: "no_status_read ops"
    by (simp_all add: no_status_read_def)
  have seen: "\<not> bit (m_tsr_seen (perform h dbg op s)) n"
    using seen_bit_acquired [of h dbg op s n] Cons.prems(2) ok by blast
  have kept: "bit (m_tsr s) n \<longrightarrow> bit (m_tsr (perform h dbg op s)) n"
    using flag_cleared_only_by_its_register [of s n h dbg op] Cons.prems(2) by blast
  from Cons.IH [OF rest seen] kept show ?case
    by (simp add: x)
qed

lemma second_access_keeps_flag:
  assumes "no_status_read ops" and "no_status_read ops'" and "\<not> bit (m_tsr_seen s1) n"
    and "bit (m_tsr (perform_all h ops s1)) n"
  shows "bit (m_tsr (perform_all h ops' (perform_all h ops s1))) n"
proof -
  from flags_safe_without_status_read [OF assms(1) assms(3), of h]
  have "\<not> bit (m_tsr_seen (perform_all h ops s1)) n" by simp
  from flags_safe_without_status_read [OF assms(2) this, of h] assms(4)
  show ?thesis by simp
qed

text \<open>
  C2. A program read of the status register returns the flags, changes none of them and
  only copies them into the seen shadow. Bit \<open>n\<close> of the status register after a program
  access of a timer register is bit \<open>n\<close> before it, except that ICF (bit 7) is cleared by
  a read of ICRL (odd offset of the capture register) made while ICF is marked seen, OCF
  (bit 6) by a read or write of OCRL while OCF is marked seen, and TOF (bit 5) by a read
  of TRL (offset 1 of the counter, not the alternate ATRL) while TOF is marked seen; a
  write of the control register and a debugger access clear nothing. The same access
  made a second time, with no status read in between, leaves the state as the first
  access left it. Over all operations of the device, a status bit that is set before an
  operation and clear after it is ICF, OCF or TOF, was marked seen, and the operation
  was a program access of that flag's own low register.

  The access of the low register consumes the seen mark of its flag, whether or not the
  mark was set, and leaves every other mark alone; a mark is acquired by a program read
  of the status register and by nothing else. So in any run without a program read of
  the status register a flag whose mark is clear keeps its mark clear and, once up,
  stays up: after the access of a low register, whatever follows it, a flag raised again
  is not cleared by a second access of that register, nor by anything else, until the
  status register is read again.
\<close>

theorem status_read_to_clear:
  "tsr_r False s = (m_tsr s, s\<lparr> m_tsr_seen := m_tsr s \<rparr>)
   \<and> (bit (m_tsr (snd (icr_r h False off s))) n
        \<longleftrightarrow> bit (m_tsr s) n \<and> \<not> (n = 7 \<and> odd off \<and> bit (m_tsr_seen s) 7))
   \<and> (bit (m_tsr (snd (ocr_r h False off s))) n
        \<longleftrightarrow> bit (m_tsr s) n \<and> \<not> (n = 6 \<and> odd off \<and> bit (m_tsr_seen s) 6))
   \<and> (bit (m_tsr (ocr_w h False off d s)) n
        \<longleftrightarrow> bit (m_tsr s) n \<and> \<not> (n = 6 \<and> odd off \<and> bit (m_tsr_seen s) 6))
   \<and> (bit (m_tsr (snd (timer_r h False off s))) n
        \<longleftrightarrow> bit (m_tsr s) n \<and> \<not> (n = 5 \<and> odd off \<and> \<not> bit off 1 \<and> bit (m_tsr_seen s) 5))
   \<and> m_tsr (tcr_w h d s) = m_tsr s
   \<and> m_tsr (snd (tsr_r True s)) = m_tsr s
   \<and> m_tsr (snd (icr_r h True off s)) = m_tsr s
   \<and> m_tsr (snd (ocr_r h True off s)) = m_tsr s
   \<and> m_tsr (ocr_w h True off d s) = m_tsr s
   \<and> m_tsr (snd (timer_r h True off s)) = m_tsr s
   \<and> snd (icr_r h False off (snd (icr_r h False off s))) = snd (icr_r h False off s)
   \<and> snd (ocr_r h False off (snd (ocr_r h False off s))) = snd (ocr_r h False off s)
   \<and> ocr_w h False off d (ocr_w h False off d s) = ocr_w h False off d s
   \<and> snd (timer_r h False off (snd (timer_r h False off s))) = snd (timer_r h False off s)
   \<and> (bit (m_tsr s) n \<and> \<not> bit (m_tsr (perform h dbg op s)) n \<longrightarrow>
        \<not> dbg \<and>
        ((n = 7 \<and> bit (m_tsr_seen s) 7 \<and> (\<exists>off. odd off \<and> op = Icr_r off))
         \<or> (n = 6 \<and> bit (m_tsr_seen s) 6
              \<and> (\<exists>off. odd off \<and> (op = Ocr_r off \<or> (\<exists>d. op = Ocr_w off d))))
         \<or> (n = 5 \<and> bit (m_tsr_seen s) 5
              \<and> (\<exists>off. odd off \<and> \<not> bit off 1 \<and> op = Timer_r off))))
   \<and> (bit (m_tsr_seen (snd (icr_r h False off s))) n
        \<longleftrightarrow> bit (m_tsr_seen s) n \<and> \<not> (n = 7 \<and> odd off))
   \<and> (bit (m_tsr_seen (snd (ocr_r h False off s))) n
        \<longleftrightarrow> bit (m_tsr_seen s) n \<and> \<not> (n = 6 \<and> odd off))
   \<and> (bit (m_tsr_seen (ocr_w h False off d s)) n
        \<longleftrightarrow> bit (m_tsr_seen s) n \<and> \<not> (n = 6 \<and> odd off))
   \<and> (bit (m_tsr_seen (snd (timer_r h False off s))) n
        \<longleftrightarrow> bit (m_tsr_seen s) n \<and> \<not> (n = 5 \<and> odd off \<and> \<not> bit off 1))
   \<and> (bit (m_tsr_seen (perform h dbg op s)) n \<and> \<not> bit (m_tsr_seen s) n \<longrightarrow>
        op = Tsr_r \<and> \<not> dbg)
   \<and> (no_status_read ops \<and> \<not> bit (m_tsr_seen s) n \<longrightarrow>
        \<not> bit (m_tsr_seen (perform_all h ops s)) n
        \<and> (bit (m_tsr s) n \<longrightarrow> bit (m_tsr (perform_all h ops s)) n))
   \<and> (odd off \<and> no_status_read ops \<and> no_status_read ops'
        \<and> bit (m_tsr (perform_all h ops (snd (icr_r h False off s)))) 7 \<longrightarrow>
        bit (m_tsr (perform_all h ops' (perform_all h ops (snd (icr_r h False off s))))) 7)
   \<and> (odd off \<and> no_status_read ops \<and> no_status_read ops'
        \<and> bit (m_tsr (perform_all h ops (snd (ocr_r h False off s)))) 6 \<longrightarrow>
        bit (m_tsr (perform_all h ops' (perform_all h ops (snd (ocr_r h False off s))))) 6)
   \<and> (odd off \<and> no_status_read ops \<and> no_status_read ops'
        \<and> bit (m_tsr (perform_all h ops (ocr_w h False off d s))) 6 \<longrightarrow>
        bit (m_tsr (perform_all h ops' (perform_all h ops (ocr_w h False off d s)))) 6)
   \<and> (odd off \<and> \<not> bit off 1 \<and> no_status_read ops \<and> no_status_read ops'
        \<and> bit (m_tsr (perform_all h ops (snd (timer_r h False off s)))) 5 \<longrightarrow>
        bit (m_tsr (perform_all h ops' (perform_all h ops (snd (timer_r h False off s))))) 5)"
proof (intro conjI)
  show "tsr_r False s = (m_tsr s, s\<lparr> m_tsr_seen := m_tsr s \<rparr>)"
    by (simp add: tsr_r_def)
  show "bit (m_tsr (snd (icr_r h False off s))) n
        \<longleftrightarrow> bit (m_tsr s) n \<and> \<not> (n = 7 \<and> odd off \<and> bit (m_tsr_seen s) 7)"
    by (auto simp add: icr_r_tsr bit_and_7f)
  show "bit (m_tsr (snd (ocr_r h False off s))) n
        \<longleftrightarrow> bit (m_tsr s) n \<and> \<not> (n = 6 \<and> odd off \<and> bit (m_tsr_seen s) 6)"
    by (auto simp add: ocr_r_tsr bit_and_bf)
  show "bit (m_tsr (ocr_w h False off d s)) n
        \<longleftrightarrow> bit (m_tsr s) n \<and> \<not> (n = 6 \<and> odd off \<and> bit (m_tsr_seen s) 6)"
    by (auto simp add: ocr_w_tsr bit_and_bf)
  show "bit (m_tsr (snd (timer_r h False off s))) n
        \<longleftrightarrow> bit (m_tsr s) n \<and> \<not> (n = 5 \<and> odd off \<and> \<not> bit off 1 \<and> bit (m_tsr_seen s) 5)"
    by (auto simp add: timer_r_tsr bit_and_df)
  show "m_tsr (tcr_w h d s) = m_tsr s"
    by (simp add: tcr_w_def Let_def set_pending_def)
  show "m_tsr (snd (tsr_r True s)) = m_tsr s"
    by (simp add: tsr_r_def)
  show "m_tsr (snd (icr_r h True off s)) = m_tsr s"
    by (simp add: icr_r_def Let_def)
  show "m_tsr (snd (ocr_r h True off s)) = m_tsr s"
    by (simp add: ocr_r_def Let_def)
  show "m_tsr (ocr_w h True off d s) = m_tsr s"
    by (simp add: ocr_w_def Let_def)
  show "m_tsr (snd (timer_r h True off s)) = m_tsr s"
    by (simp add: timer_r_def Let_def)
  show "snd (icr_r h False off (snd (icr_r h False off s))) = snd (icr_r h False off s)"
    by (rule icr_r_twice)
  show "snd (ocr_r h False off (snd (ocr_r h False off s))) = snd (ocr_r h False off s)"
    by (rule ocr_r_twice)
  show "ocr_w h False off d (ocr_w h False off d s) = ocr_w h False off d s"
    by (rule ocr_w_twice)
  show "snd (timer_r h False off (snd (timer_r h False off s))) = snd (timer_r h False off s)"
    by (rule timer_r_twice)
  show "bit (m_tsr s) n \<and> \<not> bit (m_tsr (perform h dbg op s)) n \<longrightarrow>
        \<not> dbg \<and>
        ((n = 7 \<and> bit (m_tsr_seen s) 7 \<and> (\<exists>off. odd off \<and> op = Icr_r off))
         \<or> (n = 6 \<and> bit (m_tsr_seen s) 6
              \<and> (\<exists>off. odd off \<and> (op = Ocr_r off \<or> (\<exists>d. op = Ocr_w off d))))
         \<or> (n = 5 \<and> bit (m_tsr_seen s) 5
              \<and> (\<exists>off. odd off \<and> \<not> bit off 1 \<and> op = Timer_r off)))"
    using flag_cleared_only_by_its_register [of s n h dbg op] by blast
  show "bit (m_tsr_seen (snd (icr_r h False off s))) n
        \<longleftrightarrow> bit (m_tsr_seen s) n \<and> \<not> (n = 7 \<and> odd off)"
    by (rule icr_r_seen_bit)
  show "bit (m_tsr_seen (snd (ocr_r h False off s))) n
        \<longleftrightarrow> bit (m_tsr_seen s) n \<and> \<not> (n = 6 \<and> odd off)"
    by (rule ocr_r_seen_bit)
  show "bit (m_tsr_seen (ocr_w h False off d s)) n
        \<longleftrightarrow> bit (m_tsr_seen s) n \<and> \<not> (n = 6 \<and> odd off)"
    by (rule ocr_w_seen_bit)
  show "bit (m_tsr_seen (snd (timer_r h False off s))) n
        \<longleftrightarrow> bit (m_tsr_seen s) n \<and> \<not> (n = 5 \<and> odd off \<and> \<not> bit off 1)"
    by (rule timer_r_seen_bit)
  show "bit (m_tsr_seen (perform h dbg op s)) n \<and> \<not> bit (m_tsr_seen s) n \<longrightarrow>
        op = Tsr_r \<and> \<not> dbg"
    using seen_bit_acquired [of h dbg op s n] by blast
  show "no_status_read ops \<and> \<not> bit (m_tsr_seen s) n \<longrightarrow>
        \<not> bit (m_tsr_seen (perform_all h ops s)) n
        \<and> (bit (m_tsr s) n \<longrightarrow> bit (m_tsr (perform_all h ops s)) n)"
    using flags_safe_without_status_read [of ops s n h] by blast
  show "odd off \<and> no_status_read ops \<and> no_status_read ops'
        \<and> bit (m_tsr (perform_all h ops (snd (icr_r h False off s)))) 7 \<longrightarrow>
        bit (m_tsr (perform_all h ops' (perform_all h ops (snd (icr_r h False off s))))) 7"
    using second_access_keeps_flag [of ops ops' "snd (icr_r h False off s)" 7 h]
    by (simp add: icr_r_seen_bit)
  show "odd off \<and> no_status_read ops \<and> no_status_read ops'
        \<and> bit (m_tsr (perform_all h ops (snd (ocr_r h False off s)))) 6 \<longrightarrow>
        bit (m_tsr (perform_all h ops' (perform_all h ops (snd (ocr_r h False off s))))) 6"
    using second_access_keeps_flag [of ops ops' "snd (ocr_r h False off s)" 6 h]
    by (simp add: ocr_r_seen_bit)
  show "odd off \<and> no_status_read ops \<and> no_status_read ops'
        \<and> bit (m_tsr (perform_all h ops (ocr_w h False off d s))) 6 \<longrightarrow>
        bit (m_tsr (perform_all h ops' (perform_all h ops (ocr_w h False off d s)))) 6"
    using second_access_keeps_flag [of ops ops' "ocr_w h False off d s" 6 h]
    by (simp add: ocr_w_seen_bit)
  show "odd off \<and> \<not> bit off 1 \<and> no_status_read ops \<and> no_status_read ops'
        \<and> bit (m_tsr (perform_all h ops (snd (timer_r h False off s)))) 5 \<longrightarrow>
        bit (m_tsr (perform_all h ops' (perform_all h ops (snd (timer_r h False off s))))) 5"
    using second_access_keeps_flag [of ops ops' "snd (timer_r h False off s)" 5 h]
    by (simp add: timer_r_seen_bit)
qed

theorem status_read_to_clear_witness:
  "bit (m_tsr (snd (tsr_r False (constructed\<lparr> m_tsr := 0x40 \<rparr>)))) 6
   \<and> \<not> bit (m_tsr (snd (ocr_r mame_hdr False 1 (snd (tsr_r False (constructed\<lparr> m_tsr := 0x40 \<rparr>)))))) 6
   \<and> bit (m_tsr (perform mame_hdr False (Burn_cycles 100)
                   (constructed\<lparr> m_tsr := 0x40, m_tsr_seen := 0x40 \<rparr>))) 6
   \<and> \<not> bit (m_tsr (snd (ocr_r mame_hdr False 1
                (constructed\<lparr> m_tsr := 0x40, m_tsr_seen := 0x40, m_ocr := 0xfffd \<rparr>)))) 6
   \<and> bit (m_tsr (perform_all mame_hdr [(False, Burn_cycles 16)]
          (snd (ocr_r mame_hdr False 1
                (constructed\<lparr> m_tsr := 0x40, m_tsr_seen := 0x40, m_ocr := 0xfffd \<rparr>))))) 6
   \<and> bit (m_tsr (perform_all mame_hdr [(False, Ocr_r 1)]
         (perform_all mame_hdr [(False, Burn_cycles 16)]
          (snd (ocr_r mame_hdr False 1
                (constructed\<lparr> m_tsr := 0x40, m_tsr_seen := 0x40, m_ocr := 0xfffd \<rparr>)))))) 6"
proof -
  let ?s = "constructed\<lparr> m_tsr := 0x40, m_tsr_seen := 0x40, m_ocr := 0xfffd \<rparr>"
  have set6: "bit (m_tsr (constructed\<lparr> m_tsr := 0x40, m_tsr_seen := 0x40 \<rparr>)) 6"
    by (simp add: bit_40)
  from status_read_to_clear [where s = "constructed\<lparr> m_tsr := 0x40 \<rparr>" and h = mame_hdr
      and off = 1 and n = 6 and d = 0 and dbg = False and op = Tsr_r and ops = "[]" and ops' = "[]"]
  have 1: "bit (m_tsr (snd (tsr_r False (constructed\<lparr> m_tsr := 0x40 \<rparr>)))) 6"
    and eq1: "snd (tsr_r False (constructed\<lparr> m_tsr := 0x40 \<rparr>))
               = constructed\<lparr> m_tsr := 0x40, m_tsr_seen := 0x40 \<rparr>"
    by (simp_all add: bit_40)
  from status_read_to_clear [where s = "constructed\<lparr> m_tsr := 0x40, m_tsr_seen := 0x40 \<rparr>"
      and h = mame_hdr and off = 1 and n = 6 and d = 0 and dbg = False and op = "Burn_cycles 100"
      and ops = "[]" and ops' = "[]"]
    set6
  have 2: "\<not> bit (m_tsr (snd (ocr_r mame_hdr False 1
                (constructed\<lparr> m_tsr := 0x40, m_tsr_seen := 0x40 \<rparr>)))) 6"
    and 3: "bit (m_tsr (perform mame_hdr False (Burn_cycles 100)
                   (constructed\<lparr> m_tsr := 0x40, m_tsr_seen := 0x40 \<rparr>))) 6"
    by (auto simp add: bit_40)
  have raised: "bit (m_tsr (perform_all mame_hdr [(False, Burn_cycles 16)]
          (snd (ocr_r mame_hdr False 1 ?s)))) 6"
    by (simp add: ocr_r_def clear_if_idle_def set_pending_def burn_defs constructed_def bit_40)
  have quiet: "odd (1::nat) \<and> no_status_read [(False, Burn_cycles 16)]
      \<and> no_status_read [(False, Ocr_r 1)]"
    by (simp add: no_status_read_def)
  from status_read_to_clear [where s = ?s and h = mame_hdr and off = 1 and n = 6 and d = 0
      and dbg = False and op = Tsr_r and ops = "[(False, Burn_cycles 16)]"
      and ops' = "[(False, Ocr_r 1)]"] raised quiet
  have 4: "\<not> bit (m_tsr (snd (ocr_r mame_hdr False 1 ?s))) 6"
    and 5: "bit (m_tsr (perform_all mame_hdr [(False, Ocr_r 1)]
         (perform_all mame_hdr [(False, Burn_cycles 16)] (snd (ocr_r mame_hdr False 1 ?s))))) 6"
    by (simp_all add: bit_40 del: perform_all.simps perform.simps)
  from 1 eq1 2 3 4 raised 5 show ?thesis
    by (simp del: perform_all.simps perform.simps)
qed

end
